(* ===== verification/Prelude.thy ===== *)
theory Prelude
  imports Main "HOL-Library.Word" "HOL-Library.Monad_Syntax"
begin

text \<open>
  Shared vocabulary of the development: the machine types of the sources
  (\<open>base/types.hh\<close>), the convention for failing code, and the generic facts
  about options, lists and words that the component theories use.

  \<^item> An unsigned integer of the sources is a word of its width, so that \<open>+\<close>,
    \<open>-\<close> and \<open>*\<close> wrap around as they do in C++.
  \<^item> Code that can stop the simulator (a failed \<open>assert\<close>, \<open>panic\<close>,
    \<open>fatal\<close>, or a use of a dead object) returns an option; \<open>None\<close> is
    that stop, and \<open>do\<close> blocks propagate it.
\<close>

section \<open>Machine types\<close>

type_synonym u8 = "8 word"
type_synonym u16 = "16 word"
type_synonym u32 = "32 word"
type_synonym u64 = "64 word"

text \<open>\<open>typedef uint64_t Tick\<close> and \<open>typedef uint64_t Addr\<close>.\<close>

type_synonym Tick = u64
type_synonym Addr = u64

section \<open>Failing code\<close>

text \<open>\<open>assert(b)\<close>: stops the simulator unless \<open>b\<close> holds.\<close>

definition check :: "bool \<Rightarrow> unit option" where
  "check b = (if b then Some () else None)"

named_theorems abort_simps
  \<open>equations that push option-valued code through its checks and binds\<close>

lemma check_True [simp]: "check True = Some ()"
  by (simp add: check_def)

lemma check_False [simp]: "check False = None"
  by (simp add: check_def)

lemma check_eq_Some [simp]: "check b = Some u \<longleftrightarrow> b"
  by (simp add: check_def)

lemma check_eq_None [simp]: "check b = None \<longleftrightarrow> \<not> b"
  by (simp add: check_def)

lemma check_bind_eq_Some [abort_simps]:
  "(check b \<bind> (\<lambda>_. m)) = Some x \<longleftrightarrow> b \<and> m = Some x"
  by (cases b) simp_all

lemma check_bind_True [abort_simps]: "b \<Longrightarrow> (check b \<bind> (\<lambda>_. m)) = m"
  by simp

lemma bind_eq_SomeD:
  assumes "(m \<bind> f) = Some y"
  obtains x where "m = Some x" and "f x = Some y"
  using assms by (cases m) auto

section \<open>Words as naturals\<close>

named_theorems word_nat
  \<open>facts that read word arithmetic without overflow as arithmetic on naturals\<close>

lemma unat_add_small [word_nat]:
  fixes a b :: "'a::len word"
  assumes "unat a + unat b < 2 ^ LENGTH('a)"
  shows "unat (a + b) = unat a + unat b"
  using assms by (simp add: unat_word_ariths)

lemma unat_mult_small [word_nat]:
  fixes a b :: "'a::len word"
  assumes "unat a * unat b < 2 ^ LENGTH('a)"
  shows "unat (a * b) = unat a * unat b"
  using assms by (simp add: unat_word_ariths)

lemma unat_sub_small [word_nat]:
  fixes a b :: "'a::len word"
  assumes "b \<le> a"
  shows "unat (a - b) = unat a - unat b"
  using assms by (simp add: unat_sub)

section \<open>Rounding up a quotient\<close>

text \<open>The least number of steps of length \<open>p\<close> that cover a distance \<open>d\<close>.\<close>

definition ceil_div :: "nat \<Rightarrow> nat \<Rightarrow> nat" where
  "ceil_div d p = (d + p - 1) div p"

lemma ceil_div_bounds:
  assumes "0 < p"
  shows "d \<le> ceil_div d p * p" and "0 < d \<Longrightarrow> ceil_div d p * p < d + p"
proof -
  have split: "d + p - 1 = ceil_div d p * p + (d + p - 1) mod p"
    unfolding ceil_div_def by (rule div_mult_mod_eq [symmetric])
  have "(d + p - 1) mod p < p" using assms by simp
  with split assms show "d \<le> ceil_div d p * p" by linarith
  show "0 < d \<Longrightarrow> ceil_div d p * p < d + p" using split assms by linarith
qed

lemma ceil_div_unique:
  assumes "0 < p" and "d \<le> n * p" and "n * p < d + p"
  shows "ceil_div d p = n"
proof -
  have "(d + p - 1) div p = n"
    by (rule div_nat_eqI) (use assms in \<open>auto simp: mult.commute\<close>)
  then show ?thesis by (simp add: ceil_div_def)
qed

lemma ceil_div_0 [simp]: "0 < p \<Longrightarrow> ceil_div 0 p = 0"
  by (rule ceil_div_unique) auto

lemma ceil_div_step:
  assumes "0 < p" and "p \<le> d"
  shows "ceil_div d p = Suc (ceil_div (d - p) p)"
proof (rule ceil_div_unique)
  show "d \<le> Suc (ceil_div (d - p) p) * p"
    using ceil_div_bounds(1) [OF assms(1), of "d - p"] assms by simp
  show "Suc (ceil_div (d - p) p) * p < d + p"
    using ceil_div_bounds(2) [OF assms(1), of "d - p"] assms by (cases "d = p") auto
qed (use assms in simp)

lemma ceil_div_le_one:
  assumes "0 < d" and "d \<le> p"
  shows "ceil_div d p = 1"
  by (rule ceil_div_unique) (use assms in auto)

end
