(* ===== verification/Clocked.thy ===== *)
theory Clocked
  imports Prelude
begin

text \<open>
  The clock of a clocked object: class \<open>Clocked\<close> of
  \<open>sim/clocked_object.hh\<close> and \<open>divCeil\<close> of \<open>base/intmath.hh\<close>. The
  mutable members \<open>tick\<close> and \<open>cycle\<close> are a record; the current tick and
  the clock period of the domain are arguments; \<open>ClockDomain\<close> shows that the
  period is never zero.
\<close>

section \<open>The code\<close>

record clocked =
  tick :: Tick
  cycle :: u64

definition divCeil :: "u64 \<Rightarrow> u64 \<Rightarrow> u64" where
  "divCeil a b = (a + b - 1) div b"

text \<open>The constructor \<open>Clocked(clk_domain)\<close>.\<close>

definition clocked_init :: clocked where
  "clocked_init = \<lparr>tick = 0, cycle = 0\<rparr>"

text \<open>\<open>update()\<close>: align \<open>tick\<close> and \<open>cycle\<close> to the next clock edge.\<close>

definition update :: "Tick \<Rightarrow> Tick \<Rightarrow> clocked \<Rightarrow> clocked" where
  "update curTick clockPeriod c =
     (if tick c \<ge> curTick then c
      else
        let c1 = c\<lparr>tick := tick c + clockPeriod, cycle := cycle c + 1\<rparr> in
        if tick c1 \<ge> curTick then c1
        else
          let elapsedCycles = divCeil (curTick - tick c1) clockPeriod in
          c1\<lparr>cycle := cycle c1 + elapsedCycles,
             tick := tick c1 + elapsedCycles * clockPeriod\<rparr>)"

definition resetClock :: "Tick \<Rightarrow> Tick \<Rightarrow> clocked \<Rightarrow> clocked" where
  "resetClock curTick clockPeriod c =
     (let elapsedCycles = divCeil curTick clockPeriod in
      c\<lparr>cycle := elapsedCycles, tick := elapsedCycles * clockPeriod\<rparr>)"

text \<open>
  The queries align the clock first, so each returns its value and the aligned
  clock.
\<close>

definition clockEdge :: "Tick \<Rightarrow> Tick \<Rightarrow> u64 \<Rightarrow> clocked \<Rightarrow> Tick \<times> clocked" where
  "clockEdge curTick clockPeriod cycles c =
     (let c' = update curTick clockPeriod c in
      (tick c' + clockPeriod * cycles, c'))"

definition curCycle :: "Tick \<Rightarrow> Tick \<Rightarrow> clocked \<Rightarrow> u64 \<times> clocked" where
  "curCycle curTick clockPeriod c =
     (let c' = update curTick clockPeriod c in (cycle c', c'))"

definition nextCycle :: "Tick \<Rightarrow> Tick \<Rightarrow> clocked \<Rightarrow> Tick \<times> clocked" where
  "nextCycle curTick clockPeriod c = clockEdge curTick clockPeriod 1 c"

definition frequency :: "u64 \<Rightarrow> Tick \<Rightarrow> u64" where
  "frequency simFrequency clockPeriod = simFrequency div clockPeriod"

definition ticksToCycles :: "Tick \<Rightarrow> Tick \<Rightarrow> u64" where
  "ticksToCycles clockPeriod t = divCeil t clockPeriod"

definition cyclesToTicks :: "Tick \<Rightarrow> u64 \<Rightarrow> Tick" where
  "cyclesToTicks clockPeriod c = clockPeriod * c"

section \<open>Facts\<close>

lemma unat_divCeil:
  assumes "0 < b" and "unat a + unat b < 2 ^ 64"
  shows "unat (divCeil a b) = ceil_div (unat a) (unat b)"
proof -
  have b: "1 \<le> unat b" using assms(1) by (simp add: word_gt_0 unat_gt_0 Suc_le_eq)
  have ab: "unat (a + b) = unat a + unat b" using assms(2) by (simp add: word_nat)
  have "1 \<le> a + b" using ab b by (simp add: word_le_nat_alt)
  then have "unat (a + b - 1) = unat a + unat b - 1" by (simp add: unat_sub ab)
  then show ?thesis by (simp add: divCeil_def ceil_div_def unat_div)
qed

text \<open>How many clock edges lie between the recorded tick and the current one.\<close>

definition edges_behind :: "Tick \<Rightarrow> Tick \<Rightarrow> clocked \<Rightarrow> nat" where
  "edges_behind curTick clockPeriod c =
     ceil_div (unat curTick - unat (tick c)) (unat clockPeriod)"

lemma update_spec:
  assumes P: "0 < clockPeriod"
    and room: "unat curTick + unat clockPeriod < 2 ^ 64"
  shows "unat (tick (update curTick clockPeriod c)) =
           unat (tick c) + edges_behind curTick clockPeriod c * unat clockPeriod"
    and "cycle (update curTick clockPeriod c) =
           cycle c + of_nat (edges_behind curTick clockPeriod c)"
proof -
  let ?t = "unat (tick c)" and ?n = "unat curTick" and ?p = "unat clockPeriod"
  have p: "0 < ?p" using P by (simp add: word_gt_0 unat_gt_0)
  consider (aligned) "curTick \<le> tick c"
    | (one) "tick c < curTick" and "curTick \<le> tick c + clockPeriod"
    | (more) "tick c < curTick" and "tick c + clockPeriod < curTick"
    by fastforce
  then have "unat (tick (update curTick clockPeriod c)) =
               ?t + edges_behind curTick clockPeriod c * ?p \<and>
             cycle (update curTick clockPeriod c) =
               cycle c + of_nat (edges_behind curTick clockPeriod c)"
  proof cases
    case aligned
    then have "?n - ?t = 0" by (simp add: word_le_nat_alt)
    then show ?thesis using aligned p by (simp add: update_def edges_behind_def)
  next
    case one
    then have lt: "?t < ?n" by (simp add: word_less_nat_alt)
    then have tp: "unat (tick c + clockPeriod) = ?t + ?p" using room by (simp add: word_nat)
    with one have "?n - ?t \<le> ?p" by (simp add: word_le_nat_alt)
    then have "ceil_div (?n - ?t) ?p = 1" using lt by (simp add: ceil_div_le_one)
    then show ?thesis using one tp by (simp add: update_def edges_behind_def Let_def)
  next
    case more
    then have lt: "?t < ?n" by (simp add: word_less_nat_alt)
    then have tp: "unat (tick c + clockPeriod) = ?t + ?p" using room by (simp add: word_nat)
    define d where "d = curTick - (tick c + clockPeriod)"
    have dn: "unat d = ?n - ?t - ?p" using more tp by (simp add: d_def word_nat)
    then have dp: "unat d + ?p < 2 ^ 64" using room by linarith
    define e where "e = divCeil d clockPeriod"
    have e: "unat e = ceil_div (?n - ?t - ?p) ?p"
      using unat_divCeil [OF P dp] dn by (simp add: e_def)
    have big: "?t + ?p < ?n" using more tp by (simp add: word_less_nat_alt)
    then have S: "ceil_div (?n - ?t) ?p = Suc (unat e)"
      unfolding e using p by (intro ceil_div_step) simp_all
    have ep: "unat e * ?p < ?n - ?t - ?p + ?p"
      unfolding e using p big by (intro ceil_div_bounds(2)) simp_all
    have prod: "unat (e * clockPeriod) = unat e * ?p" using ep big room by (simp add: word_nat)
    have "unat (tick c + clockPeriod + e * clockPeriod) = ?t + ?p + unat e * ?p"
      using ep big room by (simp add: word_nat tp prod)
    moreover have "cycle c + 1 + e = cycle c + of_nat (Suc (unat e))" by simp
    ultimately show ?thesis using more S
      by (simp add: update_def edges_behind_def Let_def e_def [symmetric] d_def [symmetric]
          not_le [symmetric])
  qed
  then show "unat (tick (update curTick clockPeriod c)) =
               ?t + edges_behind curTick clockPeriod c * ?p"
    and "cycle (update curTick clockPeriod c) =
           cycle c + of_nat (edges_behind curTick clockPeriod c)" by simp_all
qed


text \<open>
  The invariant of a clock: the recorded edge is less than one period ahead of the
  current tick. Time going on keeps it, and so do the queries.
\<close>

definition clock_ok :: "Tick \<Rightarrow> Tick \<Rightarrow> clocked \<Rightarrow> bool" where
  "clock_ok curTick clockPeriod c \<longleftrightarrow> unat (tick c) < unat curTick + unat clockPeriod"

lemma clock_ok_init: "0 < clockPeriod \<Longrightarrow> clock_ok curTick clockPeriod clocked_init"
  by (simp add: clock_ok_def clocked_init_def word_less_nat_alt)

lemma clock_ok_later: "clock_ok t clockPeriod c \<Longrightarrow> t \<le> t' \<Longrightarrow> clock_ok t' clockPeriod c"
  by (simp add: clock_ok_def word_le_nat_alt)

lemma update_window:
  assumes P: "0 < clockPeriod"
    and room: "unat curTick + unat clockPeriod < 2 ^ 64"
    and ok: "clock_ok curTick clockPeriod c"
  shows "unat curTick \<le> unat (tick (update curTick clockPeriod c))"
    and "unat (tick (update curTick clockPeriod c)) < unat curTick + unat clockPeriod"
proof -
  let ?t = "unat (tick c)" and ?n = "unat curTick" and ?p = "unat clockPeriod"
  have p: "0 < ?p" using P by (simp add: word_gt_0 unat_gt_0)
  note up = update_spec(1) [OF P room, of c, unfolded edges_behind_def]
  have low: "?n - ?t \<le> ceil_div (?n - ?t) ?p * ?p" by (rule ceil_div_bounds(1) [OF p])
  have high: "?t < ?n \<Longrightarrow> ceil_div (?n - ?t) ?p * ?p < ?n - ?t + ?p"
    using ceil_div_bounds(2) [OF p, of "?n - ?t"] by simp
  show "?n \<le> unat (tick (update curTick clockPeriod c))" using up low by linarith
  show "unat (tick (update curTick clockPeriod c)) < ?n + ?p"
  proof (cases "?t < ?n")
    case True
    then show ?thesis using up high by linarith
  next
    case False
    then show ?thesis using up ok p by (simp add: clock_ok_def)
  qed
qed

lemma clock_ok_update:
  assumes "0 < clockPeriod" and "unat curTick + unat clockPeriod < 2 ^ 64"
    and "clock_ok curTick clockPeriod c"
  shows "clock_ok curTick clockPeriod (update curTick clockPeriod c)"
  using update_window(2) [OF assms] by (simp add: clock_ok_def)

lemma unat_clockEdge:
  assumes P: "0 < clockPeriod"
    and room: "unat curTick + (unat cycles + 1) * unat clockPeriod < 2 ^ 64"
    and ok: "clock_ok curTick clockPeriod c"
  shows "unat (fst (clockEdge curTick clockPeriod cycles c)) =
           unat (tick (update curTick clockPeriod c)) + unat cycles * unat clockPeriod"
proof -
  have r: "unat curTick + unat clockPeriod < 2 ^ 64" using room by (simp add: algebra_simps)
  have b: "unat (tick (update curTick clockPeriod c)) + unat cycles * unat clockPeriod < 2 ^ 64"
    using update_window(2) [OF P r ok] room by (simp add: algebra_simps)
  have m: "unat (clockPeriod * cycles) = unat clockPeriod * unat cycles"
    using b by (intro unat_mult_small) (simp add: mult.commute)
  show ?thesis using b by (simp add: clockEdge_def Let_def unat_add_small m mult.commute)
qed

text \<open>
  C13: \<open>clockEdge(cycles)\<close> is a clock edge (a whole number of periods after the
  recorded edge), it lies at least \<open>cycles\<close> periods and less than
  \<open>cycles + 1\<close> periods after the current tick, and the invariant of the clock is
  kept.
\<close>

theorem clockEdge_window:
  assumes P: "0 < clockPeriod"
    and room: "unat curTick + (unat cycles + 1) * unat clockPeriod < 2 ^ 64"
    and ok: "clock_ok curTick clockPeriod c"
    and res: "clockEdge curTick clockPeriod cycles c = (edge, c')"
  shows "unat curTick + unat cycles * unat clockPeriod \<le> unat edge \<and>
         unat edge < unat curTick + (unat cycles + 1) * unat clockPeriod \<and>
         (\<exists>n. unat edge = unat (tick c) + n * unat clockPeriod) \<and>
         clock_ok curTick clockPeriod c'"
proof (intro conjI)
  have r: "unat curTick + unat clockPeriod < 2 ^ 64" using room by (simp add: algebra_simps)
  note w = update_window [OF P r ok] and u = unat_clockEdge [OF P room ok]
  show "unat curTick + unat cycles * unat clockPeriod \<le> unat edge"
    and "unat edge < unat curTick + (unat cycles + 1) * unat clockPeriod"
    using w u res by (simp_all add: algebra_simps)
  have "unat edge = unat (tick c) +
      (edges_behind curTick clockPeriod c + unat cycles) * unat clockPeriod"
    using u update_spec(1) [OF P r, of c] res by (simp add: algebra_simps)
  then show "\<exists>n. unat edge = unat (tick c) + n * unat clockPeriod" ..
  show "clock_ok curTick clockPeriod c'"
    using res clock_ok_update [OF P r ok] by (auto simp: clockEdge_def Let_def)
qed

theorem clockEdge_window_witness:
  "unat (1250 :: Tick) + unat (2 :: u64) * unat (500 :: Tick) \<le> unat (2500 :: Tick) \<and>
   unat (2500 :: Tick) < unat (1250 :: Tick) + (unat (2 :: u64) + 1) * unat (500 :: Tick) \<and>
   clock_ok 1250 500 \<lparr>tick = 1500, cycle = 3\<rparr>"
proof -
  have "clockEdge 1250 500 2 \<lparr>tick = 1000, cycle = 2\<rparr> = (2500, \<lparr>tick = 1500, cycle = 3\<rparr>)"
    by (simp add: clockEdge_def update_def)
  from clockEdge_window [OF _ _ _ this] show ?thesis by (simp add: clock_ok_def)
qed

end
