(* ===== verification/Flags.thy ===== *)
theory Flags
  imports Prelude
begin

text \<open>
  Class \<open>Flags\<close> of \<open>base/flags.hh\<close>: a set of flags kept in the bits of
  an unsigned integer. Events, packets and requests keep their flags this way.
\<close>

unbundle bit_operations_syntax

section \<open>The code\<close>

definition isSet :: "'a::len word \<Rightarrow> 'a word \<Rightarrow> bool" where
  "isSet f msk = (f AND msk \<noteq> 0)"

definition allSet :: "'a::len word \<Rightarrow> 'a word \<Rightarrow> bool" where
  "allSet f msk = (f AND msk = msk)"

definition noneSet :: "'a::len word \<Rightarrow> 'a word \<Rightarrow> bool" where
  "noneSet f msk = (f AND msk = 0)"

definition clear :: "'a::len word \<Rightarrow> 'a word \<Rightarrow> 'a word" where
  "clear msk f = f AND NOT msk"

definition set_flags :: "'a::len word \<Rightarrow> 'a word \<Rightarrow> 'a word" where
  "set_flags msk f = f OR msk"

definition set_cond :: "'a::len word \<Rightarrow> bool \<Rightarrow> 'a word \<Rightarrow> 'a word" where
  "set_cond msk condition f = (if condition then set_flags msk f else clear msk f)"

definition replace :: "'a::len word \<Rightarrow> 'a word \<Rightarrow> 'a word \<Rightarrow> 'a word" where
  "replace flags msk f = (f AND NOT msk) OR (flags AND msk)"

section \<open>Facts\<close>

text \<open>
  What the users of the class rely on: a set flag reads as set, a cleared flag
  reads as clear, and flags outside the mask keep their value.
\<close>

lemma disjoint_bits:
  fixes m n :: "'a::len word"
  assumes "m AND n = 0" and "bit m k"
  shows "\<not> bit n k"
proof
  assume "bit n k"
  with assms(2) have "bit (m AND n) k" by (simp add: bit_and_iff)
  with assms(1) show False by simp
qed

lemma word_eq_zero_bits: "(w :: 'a::len word) = 0 \<longleftrightarrow> (\<forall>n. \<not> bit w n)"
  by (auto intro: bit_word_eqI)

lemma isSet_bit: "isSet f msk \<longleftrightarrow> (\<exists>n. bit f n \<and> bit msk n)"
proof
  show "isSet f msk \<Longrightarrow> \<exists>n. bit f n \<and> bit msk n"
    unfolding isSet_def by (metis bit_and_iff word_eq_zero_bits)
  show "\<exists>n. bit f n \<and> bit msk n \<Longrightarrow> isSet f msk"
    unfolding isSet_def using disjoint_bits by blast
qed

lemma noneSet_iff: "noneSet f msk \<longleftrightarrow> \<not> isSet f msk"
  by (simp add: noneSet_def isSet_def)

lemma isSet_set_same:
  assumes "msk \<noteq> 0"
  shows "isSet (set_flags msk f) msk"
proof -
  have "\<exists>n. bit msk n" using assms by (simp add: word_eq_zero_bits)
  then show ?thesis by (auto simp: isSet_bit set_flags_def bit_simps)
qed

lemma isSet_clear_same: "\<not> isSet (clear msk f) msk"
  by (auto simp: isSet_bit clear_def bit_simps)

lemma isSet_set_other: "m AND msk = 0 \<Longrightarrow> isSet (set_flags msk f) m = isSet f m"
  by (auto simp: isSet_bit set_flags_def bit_simps dest: disjoint_bits)

lemma isSet_clear_other: "m AND msk = 0 \<Longrightarrow> isSet (clear msk f) m = isSet f m"
  by (auto simp: isSet_bit clear_def bit_simps
      dest: disjoint_bits bit_imp_le_length)

lemma isSet_zero [simp]: "\<not> isSet 0 m"
  by (simp add: isSet_def)

lemma isSet_or: "isSet f (m OR n) \<longleftrightarrow> isSet f m \<or> isSet f n"
  by (auto simp: isSet_bit bit_simps)

lemma replace_in_mask:
  "m AND NOT msk = 0 \<Longrightarrow> isSet (replace flags msk f) m = isSet flags m"
  by (fastforce simp: isSet_bit replace_def bit_simps
      dest: disjoint_bits bit_imp_le_length)

lemma replace_out_mask:
  "m AND msk = 0 \<Longrightarrow> isSet (replace flags msk f) m = isSet f m"
  by (auto simp: isSet_bit replace_def bit_simps dest: disjoint_bits bit_imp_le_length)

lemmas flag_simps = isSet_set_same isSet_clear_same isSet_set_other isSet_clear_other

end
