(* ===== verification/MemCmd.thy ===== *)
theory MemCmd
  imports Flags
begin

text \<open>
  Class \<open>MemCmd\<close> of \<open>mem/packet.hh\<close> with its table
  \<open>MemCmd::commandInfo\<close> of \<open>mem/packet.cc\<close>: the memory commands, their
  attributes and the response command of each request. The table is an array
  indexed by the numeric value of the command, as in the source, so the facts below
  also depend on its rows being in the order of the enumeration.
\<close>

section \<open>The code\<close>

datatype (plugins del: "quickcheck") Command =
    InvalidCmd | ReadReq | ReadResp | ReadRespWithInvalidate | WriteReq | WriteResp |
  WriteCompleteResp | WritebackDirty | WritebackClean | WriteClean | CleanEvict |
  SoftPFReq | SoftPFExReq | HardPFReq | SoftPFResp | HardPFResp | WriteLineReq |
  UpgradeReq | SCUpgradeReq | UpgradeResp | SCUpgradeFailReq | UpgradeFailResp |
  ReadExReq | ReadExResp | ReadCleanReq | ReadSharedReq | LoadLockedReq | StoreCondReq |
  StoreCondFailReq | StoreCondResp | LockedRMWReadReq | LockedRMWReadResp |
  LockedRMWWriteReq | LockedRMWWriteResp | SwapReq | SwapResp | MemFenceReq | MemSyncReq |
  MemSyncResp | MemFenceResp | CleanSharedReq | CleanSharedResp | CleanInvalidReq |
  CleanInvalidResp | InvalidDestError | BadAddressError | ReadError | WriteError |
  FunctionalReadError | FunctionalWriteError | PrintReq | FlushReq | InvalidateReq |
  InvalidateResp | HTMReq | HTMReqResp | HTMAbort | TlbiExtSync

text \<open>\<open>MemCmd::toInt\<close>: the value of the enumerator; \<open>MemFenceReq\<close> skips
  the two deprecated message commands.\<close>

primrec toInt :: "Command \<Rightarrow> nat" where
  "toInt InvalidCmd = 0"
| "toInt ReadReq = 1"
| "toInt ReadResp = 2"
| "toInt ReadRespWithInvalidate = 3"
| "toInt WriteReq = 4"
| "toInt WriteResp = 5"
| "toInt WriteCompleteResp = 6"
| "toInt WritebackDirty = 7"
| "toInt WritebackClean = 8"
| "toInt WriteClean = 9"
| "toInt CleanEvict = 10"
| "toInt SoftPFReq = 11"
| "toInt SoftPFExReq = 12"
| "toInt HardPFReq = 13"
| "toInt SoftPFResp = 14"
| "toInt HardPFResp = 15"
| "toInt WriteLineReq = 16"
| "toInt UpgradeReq = 17"
| "toInt SCUpgradeReq = 18"
| "toInt UpgradeResp = 19"
| "toInt SCUpgradeFailReq = 20"
| "toInt UpgradeFailResp = 21"
| "toInt ReadExReq = 22"
| "toInt ReadExResp = 23"
| "toInt ReadCleanReq = 24"
| "toInt ReadSharedReq = 25"
| "toInt LoadLockedReq = 26"
| "toInt StoreCondReq = 27"
| "toInt StoreCondFailReq = 28"
| "toInt StoreCondResp = 29"
| "toInt LockedRMWReadReq = 30"
| "toInt LockedRMWReadResp = 31"
| "toInt LockedRMWWriteReq = 32"
| "toInt LockedRMWWriteResp = 33"
| "toInt SwapReq = 34"
| "toInt SwapResp = 35"
| "toInt MemFenceReq = 38"
| "toInt MemSyncReq = 39"
| "toInt MemSyncResp = 40"
| "toInt MemFenceResp = 41"
| "toInt CleanSharedReq = 42"
| "toInt CleanSharedResp = 43"
| "toInt CleanInvalidReq = 44"
| "toInt CleanInvalidResp = 45"
| "toInt InvalidDestError = 46"
| "toInt BadAddressError = 47"
| "toInt ReadError = 48"
| "toInt WriteError = 49"
| "toInt FunctionalReadError = 50"
| "toInt FunctionalWriteError = 51"
| "toInt PrintReq = 52"
| "toInt FlushReq = 53"
| "toInt InvalidateReq = 54"
| "toInt InvalidateResp = 55"
| "toInt HTMReq = 56"
| "toInt HTMReqResp = 57"
| "toInt HTMAbort = 58"
| "toInt TlbiExtSync = 59"

datatype (plugins del: "quickcheck") Attribute =
    IsRead | IsWrite | IsUpgrade | IsInvalidate | IsClean | NeedsWritable | IsRequest |
  IsResponse | NeedsResponse | IsEviction | IsSWPrefetch | IsHWPrefetch | IsLlsc |
  IsLockedRMW | HasData | IsError | IsPrint | IsFlush | FromCache

primrec attrNum :: "Attribute \<Rightarrow> nat" where
  "attrNum IsRead = 0"
| "attrNum IsWrite = 1"
| "attrNum IsUpgrade = 2"
| "attrNum IsInvalidate = 3"
| "attrNum IsClean = 4"
| "attrNum NeedsWritable = 5"
| "attrNum IsRequest = 6"
| "attrNum IsResponse = 7"
| "attrNum NeedsResponse = 8"
| "attrNum IsEviction = 9"
| "attrNum IsSWPrefetch = 10"
| "attrNum IsHWPrefetch = 11"
| "attrNum IsLlsc = 12"
| "attrNum IsLockedRMW = 13"
| "attrNum HasData = 14"
| "attrNum IsError = 15"
| "attrNum IsPrint = 16"
| "attrNum IsFlush = 17"
| "attrNum FromCache = 18"

text \<open>\<open>buildAttributes\<close>: the bit set of a list of attributes.\<close>

definition buildAttributes :: "Attribute list \<Rightarrow> u64" where
  "buildAttributes attrs = foldl (\<lambda>ret attr. ret OR push_bit (attrNum attr) 1) 0 attrs"

record CommandInfo =
  attributes :: u64
  response :: Command
  str :: string

definition mkInfo :: "Attribute list \<Rightarrow> Command \<Rightarrow> string \<Rightarrow> CommandInfo" where
  "mkInfo attrs resp s = \<lparr>attributes = buildAttributes attrs, response = resp, str = s\<rparr>"

definition commandInfo :: "CommandInfo list" where
  "commandInfo = [
     mkInfo [] InvalidCmd ''InvalidCmd'',
     mkInfo [IsRead, IsRequest, NeedsResponse] ReadResp ''ReadReq'',
     mkInfo [IsRead, IsResponse, HasData] InvalidCmd ''ReadResp'',
     mkInfo [IsRead, IsResponse, HasData, IsInvalidate] InvalidCmd ''ReadRespWithInvalidate'',
     mkInfo [IsWrite, NeedsWritable, IsRequest, NeedsResponse, HasData] WriteResp ''WriteReq'',
     mkInfo [IsWrite, IsResponse] InvalidCmd ''WriteResp'',
     mkInfo [IsWrite, IsResponse] InvalidCmd ''WriteCompleteResp'',
     mkInfo [IsWrite, IsRequest, IsEviction, HasData, FromCache] InvalidCmd ''WritebackDirty'',
     mkInfo [IsWrite, IsRequest, IsEviction, HasData, FromCache] InvalidCmd ''WritebackClean'',
     mkInfo [IsWrite, IsRequest, HasData, FromCache] InvalidCmd ''WriteClean'',
     mkInfo [IsRequest, IsEviction, FromCache] InvalidCmd ''CleanEvict'',
     mkInfo [IsRead, IsRequest, IsSWPrefetch, NeedsResponse] SoftPFResp ''SoftPFReq'',
     mkInfo [IsRead, NeedsWritable, IsInvalidate, IsRequest, IsSWPrefetch, NeedsResponse] SoftPFResp ''SoftPFExReq'',
     mkInfo [IsRead, IsRequest, IsHWPrefetch, NeedsResponse, FromCache] HardPFResp ''HardPFReq'',
     mkInfo [IsRead, IsResponse, IsSWPrefetch, HasData] InvalidCmd ''SoftPFResp'',
     mkInfo [IsRead, IsResponse, IsHWPrefetch, HasData] InvalidCmd ''HardPFResp'',
     mkInfo [IsWrite, NeedsWritable, IsRequest, NeedsResponse, HasData] WriteResp ''WriteLineReq'',
     mkInfo [IsInvalidate, NeedsWritable, IsUpgrade, IsRequest, NeedsResponse, FromCache] UpgradeResp ''UpgradeReq'',
     mkInfo [IsInvalidate, NeedsWritable, IsUpgrade, IsLlsc, IsRequest, NeedsResponse, FromCache] UpgradeResp ''SCUpgradeReq'',
     mkInfo [IsUpgrade, IsResponse] InvalidCmd ''UpgradeResp'',
     mkInfo [IsRead, NeedsWritable, IsInvalidate, IsLlsc, IsRequest, NeedsResponse, FromCache] UpgradeFailResp ''SCUpgradeFailReq'',
     mkInfo [IsRead, IsResponse, HasData] InvalidCmd ''UpgradeFailResp'',
     mkInfo [IsRead, NeedsWritable, IsInvalidate, IsRequest, NeedsResponse, FromCache] ReadExResp ''ReadExReq'',
     mkInfo [IsRead, IsResponse, HasData] InvalidCmd ''ReadExResp'',
     mkInfo [IsRead, IsRequest, NeedsResponse, FromCache] ReadResp ''ReadCleanReq'',
     mkInfo [IsRead, IsRequest, NeedsResponse, FromCache] ReadResp ''ReadSharedReq'',
     mkInfo [IsRead, IsLlsc, IsRequest, NeedsResponse] ReadResp ''LoadLockedReq'',
     mkInfo [IsWrite, NeedsWritable, IsLlsc, IsRequest, NeedsResponse, HasData] StoreCondResp ''StoreCondReq'',
     mkInfo [IsWrite, NeedsWritable, IsLlsc, IsRequest, NeedsResponse, HasData] StoreCondResp ''StoreCondFailReq'',
     mkInfo [IsWrite, IsLlsc, IsResponse] InvalidCmd ''StoreCondResp'',
     mkInfo [IsRead, IsLockedRMW, NeedsWritable, IsRequest, NeedsResponse] LockedRMWReadResp ''LockedRMWReadReq'',
     mkInfo [IsRead, IsLockedRMW, NeedsWritable, IsResponse, HasData] InvalidCmd ''LockedRMWReadResp'',
     mkInfo [IsWrite, IsLockedRMW, NeedsWritable, IsRequest, NeedsResponse, HasData] LockedRMWWriteResp ''LockedRMWWriteReq'',
     mkInfo [IsWrite, IsLockedRMW, NeedsWritable, IsResponse] InvalidCmd ''LockedRMWWriteResp'',
     mkInfo [IsRead, IsWrite, NeedsWritable, IsRequest, HasData, NeedsResponse] SwapResp ''SwapReq'',
     mkInfo [IsRead, IsWrite, IsResponse, HasData] InvalidCmd ''SwapResp'',
     mkInfo [] InvalidCmd ''Deprecated_MessageReq'',
     mkInfo [] InvalidCmd ''Deprecated_MessageResp'',
     mkInfo [IsRequest, NeedsResponse] MemFenceResp ''MemFenceReq'',
     mkInfo [IsRequest, NeedsResponse] MemSyncResp ''MemSyncReq'',
     mkInfo [IsResponse] InvalidCmd ''MemSyncResp'',
     mkInfo [IsResponse] InvalidCmd ''MemFenceResp'',
     mkInfo [IsRequest, IsClean, NeedsResponse, FromCache] CleanSharedResp ''CleanSharedReq'',
     mkInfo [IsResponse, IsClean] InvalidCmd ''CleanSharedResp'',
     mkInfo [IsRequest, IsInvalidate, IsClean, NeedsResponse, FromCache] CleanInvalidResp ''CleanInvalidReq'',
     mkInfo [IsResponse, IsInvalidate, IsClean] InvalidCmd ''CleanInvalidResp'',
     mkInfo [IsResponse, IsError] InvalidCmd ''InvalidDestError'',
     mkInfo [IsResponse, IsError] InvalidCmd ''BadAddressError'',
     mkInfo [IsRead, IsResponse, IsError] InvalidCmd ''ReadError'',
     mkInfo [IsWrite, IsResponse, IsError] InvalidCmd ''WriteError'',
     mkInfo [IsRead, IsResponse, IsError] InvalidCmd ''FunctionalReadError'',
     mkInfo [IsWrite, IsResponse, IsError] InvalidCmd ''FunctionalWriteError'',
     mkInfo [IsRequest, IsPrint] InvalidCmd ''PrintReq'',
     mkInfo [IsRequest, IsFlush, NeedsWritable] InvalidCmd ''FlushReq'',
     mkInfo [IsInvalidate, IsRequest, NeedsWritable, NeedsResponse, FromCache] InvalidateResp ''InvalidateReq'',
     mkInfo [IsInvalidate, IsResponse] InvalidCmd ''InvalidateResp'',
     mkInfo [IsRead, IsRequest, NeedsResponse] HTMReqResp ''HTMReq'',
     mkInfo [IsRead, IsResponse] InvalidCmd ''HTMReqResp'',
     mkInfo [IsRead, IsRequest] InvalidCmd ''HTMAbort'',
     mkInfo [IsRequest] InvalidCmd ''TlbiExtSync'']"

definition testCmdAttrib :: "Command \<Rightarrow> Attribute \<Rightarrow> bool" where
  "testCmdAttrib cmd attrib = bit (attributes (commandInfo ! toInt cmd)) (attrNum attrib)"

definition responseCommand :: "Command \<Rightarrow> Command" where
  "responseCommand cmd = response (commandInfo ! toInt cmd)"

definition toString :: "Command \<Rightarrow> string" where
  "toString cmd = str (commandInfo ! toInt cmd)"

abbreviation isRead :: "Command \<Rightarrow> bool" where
  "isRead cmd \<equiv> testCmdAttrib cmd IsRead"

abbreviation isWrite :: "Command \<Rightarrow> bool" where
  "isWrite cmd \<equiv> testCmdAttrib cmd IsWrite"

abbreviation isUpgrade :: "Command \<Rightarrow> bool" where
  "isUpgrade cmd \<equiv> testCmdAttrib cmd IsUpgrade"

abbreviation isRequest :: "Command \<Rightarrow> bool" where
  "isRequest cmd \<equiv> testCmdAttrib cmd IsRequest"

abbreviation isResponse :: "Command \<Rightarrow> bool" where
  "isResponse cmd \<equiv> testCmdAttrib cmd IsResponse"

abbreviation needsWritable :: "Command \<Rightarrow> bool" where
  "needsWritable cmd \<equiv> testCmdAttrib cmd NeedsWritable"

abbreviation needsResponse :: "Command \<Rightarrow> bool" where
  "needsResponse cmd \<equiv> testCmdAttrib cmd NeedsResponse"

abbreviation isInvalidate :: "Command \<Rightarrow> bool" where
  "isInvalidate cmd \<equiv> testCmdAttrib cmd IsInvalidate"

abbreviation isEviction :: "Command \<Rightarrow> bool" where
  "isEviction cmd \<equiv> testCmdAttrib cmd IsEviction"

abbreviation isClean :: "Command \<Rightarrow> bool" where
  "isClean cmd \<equiv> testCmdAttrib cmd IsClean"

abbreviation fromCache :: "Command \<Rightarrow> bool" where
  "fromCache cmd \<equiv> testCmdAttrib cmd FromCache"

abbreviation hasData :: "Command \<Rightarrow> bool" where
  "hasData cmd \<equiv> testCmdAttrib cmd HasData"

abbreviation isLLSC :: "Command \<Rightarrow> bool" where
  "isLLSC cmd \<equiv> testCmdAttrib cmd IsLlsc"

abbreviation isLockedRMW :: "Command \<Rightarrow> bool" where
  "isLockedRMW cmd \<equiv> testCmdAttrib cmd IsLockedRMW"

abbreviation isSWPrefetch :: "Command \<Rightarrow> bool" where
  "isSWPrefetch cmd \<equiv> testCmdAttrib cmd IsSWPrefetch"

abbreviation isHWPrefetch :: "Command \<Rightarrow> bool" where
  "isHWPrefetch cmd \<equiv> testCmdAttrib cmd IsHWPrefetch"

abbreviation isError :: "Command \<Rightarrow> bool" where
  "isError cmd \<equiv> testCmdAttrib cmd IsError"

abbreviation isPrint :: "Command \<Rightarrow> bool" where
  "isPrint cmd \<equiv> testCmdAttrib cmd IsPrint"

abbreviation isFlush :: "Command \<Rightarrow> bool" where
  "isFlush cmd \<equiv> testCmdAttrib cmd IsFlush"

definition isWriteback :: "Command \<Rightarrow> bool" where
  "isWriteback cmd = (testCmdAttrib cmd IsEviction \<and> testCmdAttrib cmd HasData)"

definition isPrefetch :: "Command \<Rightarrow> bool" where
  "isPrefetch cmd = (testCmdAttrib cmd IsSWPrefetch \<or> testCmdAttrib cmd IsHWPrefetch)"

definition isDemand :: "Command \<Rightarrow> bool" where
  "isDemand cmd =
     (cmd = ReadReq \<or> cmd = WriteReq \<or> cmd = WriteLineReq \<or> cmd = ReadExReq \<or>
      cmd = ReadCleanReq \<or> cmd = ReadSharedReq)"

section \<open>Facts\<close>

lemma attrNum_inj [simp]: "attrNum a = attrNum b \<longleftrightarrow> a = b"
proof
  assume "attrNum a = attrNum b"
  then show "a = b" by (cases a) (cases b, simp_all)+
qed simp

lemma attrNum_lt [simp]: "attrNum a < 64"
  by (cases a) simp_all

text \<open>The bit set holds exactly the listed attributes.\<close>

lemma bit_buildAttributes: "bit (buildAttributes attrs) (attrNum a) \<longleftrightarrow> a \<in> set attrs"
proof -
  have one: "bit (2 ^ attrNum b :: u64) (attrNum a) \<longleftrightarrow> a = b" for b
    by (auto simp: bit_exp_iff possible_bit_def)
  have "bit (foldl (\<lambda>ret attr. ret OR push_bit (attrNum attr) 1) r attrs) (attrNum a) \<longleftrightarrow>
          bit r (attrNum a) \<or> a \<in> set attrs" for r :: u64
    by (induction attrs arbitrary: r) (simp_all add: bit_or_iff one disj_assoc)
  then show ?thesis by (simp add: buildAttributes_def)
qed

declare attrNum.simps [simp del]

lemma info_simps [simp]:
  "attributes (mkInfo attrs resp s) = buildAttributes attrs"
  "response (mkInfo attrs resp s) = resp"
  "str (mkInfo attrs resp s) = s"
  by (simp_all add: mkInfo_def)

lemmas cmd_table = testCmdAttrib_def responseCommand_def toString_def commandInfo_def
  bit_buildAttributes

text \<open>The rows of the plain reads and writes, used by most components.\<close>

lemma cmd_attrs [simp]:
  "testCmdAttrib InvalidCmd a \<longleftrightarrow> False"
  "testCmdAttrib ReadReq a \<longleftrightarrow> a \<in> {IsRead, IsRequest, NeedsResponse}"
  "testCmdAttrib ReadResp a \<longleftrightarrow> a \<in> {IsRead, IsResponse, HasData}"
  "testCmdAttrib WriteReq a \<longleftrightarrow> a \<in> {IsWrite, NeedsWritable, IsRequest, NeedsResponse, HasData}"
  "testCmdAttrib WriteResp a \<longleftrightarrow> a \<in> {IsWrite, IsResponse}"
  by (simp_all add: cmd_table)

lemma cmd_responses [simp]:
  "responseCommand ReadReq = ReadResp"
  "responseCommand WriteReq = WriteResp"
  "responseCommand ReadResp = InvalidCmd"
  "responseCommand WriteResp = InvalidCmd"
  by (simp_all add: responseCommand_def commandInfo_def)

section \<open>Consistency of the table\<close>

lemma request_not_response: "\<not> (isRequest c \<and> isResponse c)"
  by (cases c) (simp_all add: cmd_table)

lemma response_row:
  "needsResponse c \<longrightarrow> isRequest c \<and> isResponse (responseCommand c) \<and>
     \<not> needsResponse (responseCommand c) \<and> isRead (responseCommand c) = isRead c"
  by (cases c) (simp_all add: cmd_table)

lemma no_response_row: "\<not> needsResponse c \<longrightarrow> responseCommand c = InvalidCmd"
  by (cases c) (simp_all add: cmd_table)

text \<open>
  C12: The table of commands is consistent: exactly the commands that need a response
  name one; such a command is a request, its response is a response and not a request,
  needs no response itself, and is a read exactly if the request is; and no command is
  both a request and a response.
\<close>

theorem command_table_consistent:
  "needsResponse c = (responseCommand c \<noteq> InvalidCmd) \<and> \<not> (isRequest c \<and> isResponse c) \<and>
   (needsResponse c \<longrightarrow> isRequest c \<and> isResponse (responseCommand c) \<and>
      \<not> isRequest (responseCommand c) \<and> \<not> needsResponse (responseCommand c) \<and>
      isRead (responseCommand c) = isRead c)"
  using response_row [of c] no_response_row [of c] request_not_response [of c]
    request_not_response [of "responseCommand c"] by auto

theorem command_table_consistent_witness:
  "needsResponse ReadReq \<and> isResponse (responseCommand ReadReq) \<and> isRead (responseCommand ReadReq)"
  using command_table_consistent [of ReadReq] by simp

end
