(* ===== verification/Packet.thy ===== *)
theory Packet
  imports MemCmd
begin

text \<open>
  Requests and packets: the parts of \<open>mem/request.hh\<close> that a packet reads, and
  class \<open>Packet\<close> of \<open>mem/packet.hh\<close> and \<open>mem/packet.cc\<close>.

  A packet is a record of the members of the class. The payload is the array the
  \<open>data\<close> pointer points to (\<open>None\<close> is \<open>nullptr\<close>). The sender states are
  linked through \<open>predecessor\<close>, each in one list, so \<open>senderState\<close> is that
  list with the most recently pushed state first. Operations that assert return
  \<open>None\<close> when the assertion fails.
\<close>

section \<open>Requests\<close>

record request =
  r_paddr :: Addr
  r_size :: u32
  byteEnable :: "bool list"
  requestorId :: u16
  r_flags :: u64
  privateFlags :: u16
  r_time :: Tick

definition REQ_VALID_SIZE :: u16 where "REQ_VALID_SIZE = 0x1"
definition REQ_VALID_PADDR :: u16 where "REQ_VALID_PADDR = 0x2"
definition LOCKED_RMW :: u64 where "LOCKED_RMW = 0x00100000"
definition LLSC :: u64 where "LLSC = 0x00200000"
definition MEM_SWAP :: u64 where "MEM_SWAP = 0x00400000"
definition MEM_SWAP_COND :: u64 where "MEM_SWAP_COND = 0x00800000"
definition PREFETCH :: u64 where "PREFETCH = 0x01000000"
definition PF_EXCLUSIVE :: u64 where "PF_EXCLUSIVE = 0x02000000"
definition ATOMIC_RETURN_OP :: u64 where "ATOMIC_RETURN_OP = 0x40000000"
definition ATOMIC_NO_RETURN_OP :: u64 where "ATOMIC_NO_RETURN_OP = 0x80000000"
definition SECURE :: u64 where "SECURE = 0x10000000"
definition INVALIDATE :: u64 where "INVALIDATE = 0x0000000100000000"
definition CLEAN :: u64 where "CLEAN = 0x0000000200000000"
definition HTM_START :: u64 where "HTM_START = 0x0000010000000000"
definition HTM_COMMIT :: u64 where "HTM_COMMIT = 0x0000020000000000"
definition HTM_CANCEL :: u64 where "HTM_CANCEL = 0x0000040000000000"
definition HTM_ABORT :: u64 where "HTM_ABORT = 0x0000080000000000"

text \<open>The constructor \<open>Request(paddr, size, flags, id)\<close>.\<close>

definition mkRequest :: "Tick \<Rightarrow> Addr \<Rightarrow> u32 \<Rightarrow> u64 \<Rightarrow> u16 \<Rightarrow> request" where
  "mkRequest curTick paddr sz fl rid =
     \<lparr>r_paddr = paddr, r_size = sz, byteEnable = replicate (unat sz) True,
      requestorId = rid, r_flags = set_flags fl 0,
      privateFlags = set_flags (REQ_VALID_PADDR OR REQ_VALID_SIZE) 0,
      r_time = curTick\<rparr>"

definition hasPaddr :: "request \<Rightarrow> bool" where
  "hasPaddr r = isSet (privateFlags r) REQ_VALID_PADDR"

definition hasSize :: "request \<Rightarrow> bool" where
  "hasSize r = isSet (privateFlags r) REQ_VALID_SIZE"

text \<open>\<open>isMasked()\<close>: some byte enable is off.\<close>

definition isMasked :: "request \<Rightarrow> bool" where
  "isMasked r = (False \<in> set (byteEnable r))"

definition req_isPrefetch :: "request \<Rightarrow> bool" where
  "req_isPrefetch r = isSet (r_flags r) (PREFETCH OR PF_EXCLUSIVE)"

definition req_isSwap :: "request \<Rightarrow> bool" where
  "req_isSwap r = isSet (r_flags r) (MEM_SWAP OR MEM_SWAP_COND)"

definition req_isHTMCmd :: "request \<Rightarrow> bool" where
  "req_isHTMCmd r =
     (isSet (r_flags r) HTM_START \<or> isSet (r_flags r) HTM_COMMIT \<or>
      isSet (r_flags r) HTM_CANCEL \<or> isSet (r_flags r) HTM_ABORT)"

definition req_isAtomic :: "request \<Rightarrow> bool" where
  "req_isAtomic r =
     (isSet (r_flags r) ATOMIC_RETURN_OP \<or> isSet (r_flags r) ATOMIC_NO_RETURN_OP)"

text \<open>\<open>makeReadCmd\<close> and \<open>makeWriteCmd\<close>: the command for a request.\<close>

definition makeReadCmd :: "request \<Rightarrow> Command" where
  "makeReadCmd r =
     (if req_isHTMCmd r then (if isSet (r_flags r) HTM_ABORT then HTMAbort else HTMReq)
      else if isSet (r_flags r) LLSC then LoadLockedReq
      else if isSet (r_flags r) PF_EXCLUSIVE then SoftPFExReq
      else if req_isPrefetch r then SoftPFReq
      else if isSet (r_flags r) LOCKED_RMW then LockedRMWReadReq
      else ReadReq)"

definition makeWriteCmd :: "request \<Rightarrow> Command" where
  "makeWriteCmd r =
     (if isSet (r_flags r) LLSC then StoreCondReq
      else if req_isSwap r \<or> req_isAtomic r then SwapReq
      else if isSet (r_flags r) INVALIDATE then
        (if isSet (r_flags r) CLEAN then CleanInvalidReq else InvalidateReq)
      else if isSet (r_flags r) CLEAN then CleanSharedReq
      else if isSet (r_flags r) LOCKED_RMW then LockedRMWWriteReq
      else WriteReq)"

section \<open>Packets\<close>

definition COPY_FLAGS :: u32 where "COPY_FLAGS = 0xFF"
definition RESPONDER_FLAGS :: u32 where "RESPONDER_FLAGS = 0x9"
definition HAS_SHARERS :: u32 where "HAS_SHARERS = 0x1"
definition EXPRESS_SNOOP :: u32 where "EXPRESS_SNOOP = 0x2"
definition RESPONDER_HAD_WRITABLE :: u32 where "RESPONDER_HAD_WRITABLE = 0x4"
definition CACHE_RESPONDING :: u32 where "CACHE_RESPONDING = 0x8"
definition WRITE_THROUGH :: u32 where "WRITE_THROUGH = 0x10"
definition SATISFIED :: u32 where "SATISFIED = 0x20"
definition FAILS_TRANSACTION :: u32 where "FAILS_TRANSACTION = 0x40"
definition FROM_TRANSACTION :: u32 where "FROM_TRANSACTION = 0x80"
definition VALID_ADDR :: u32 where "VALID_ADDR = 0x100"
definition VALID_SIZE :: u32 where "VALID_SIZE = 0x200"
definition STATIC_DATA :: u32 where "STATIC_DATA = 0x1000"
definition DYNAMIC_DATA :: u32 where "DYNAMIC_DATA = 0x2000"

lemmas packet_flag_defs = HAS_SHARERS_def EXPRESS_SNOOP_def RESPONDER_HAD_WRITABLE_def
  CACHE_RESPONDING_def WRITE_THROUGH_def SATISFIED_def FAILS_TRANSACTION_def
  FROM_TRANSACTION_def VALID_ADDR_def VALID_SIZE_def STATIC_DATA_def DYNAMIC_DATA_def
  COPY_FLAGS_def RESPONDER_FLAGS_def

datatype HtmCacheFailure = NO_FAIL | FAIL_SELF | FAIL_REMOTE | FAIL_OTHER

text \<open>
  The subclasses of \<open>Packet::SenderState\<close>: the timer of the UCIe link
  (\<open>mem/ucie/ucie_link.hh\<close>) and the states other components push, told apart by
  a number.
\<close>

datatype SenderState = UcieTimerState (entryTime: Tick) | OtherSenderState nat

record packet =
  flags :: u32
  cmd :: Command
  req :: request
  data :: "u8 list option"
  addr :: Addr
  secure :: bool
  psize :: u32
  bytesValid :: "bool list"
  qosValue :: u8
  htmReturnReason :: HtmCacheFailure
  htmTransactionUid :: u64
  headerDelay :: u32
  snoopDelay :: u32
  payloadDelay :: u32
  senderState :: "SenderState list"

text \<open>The constructor \<open>Packet(req, cmd)\<close>.\<close>

definition mkPacket :: "request \<Rightarrow> Command \<Rightarrow> packet option" where
  "mkPacket r c =
     (let a = (if hasPaddr r then r_paddr r else 0);
          f0 = (if hasPaddr r then set_flags VALID_ADDR 0 else 0);
          f1 = (if req_isHTMCmd r then set_flags VALID_ADDR f0 else f0);
          f2 = (if hasSize r then set_flags VALID_SIZE f1 else f1) in
      do { check (req_isHTMCmd r \<longrightarrow> a = 0);
           Some \<lparr>flags = f2, cmd = c, req = r, data = None, addr = a,
             secure = (hasPaddr r \<and> isSet (r_flags r) SECURE),
             psize = (if hasSize r then r_size r else 0), bytesValid = [], qosValue = 0,
             htmReturnReason = NO_FAIL, htmTransactionUid = 0, headerDelay = 0,
             snoopDelay = 0, payloadDelay = 0, senderState = []\<rparr> })"

text \<open>The constructor \<open>Packet(req, cmd, blkSize)\<close>: a block-aligned packet.\<close>

definition mkBlockPacket :: "request \<Rightarrow> Command \<Rightarrow> u32 \<Rightarrow> packet" where
  "mkBlockPacket r c blkSize =
     \<lparr>flags = set_flags VALID_SIZE (if hasPaddr r then set_flags VALID_ADDR 0 else 0),
      cmd = c, req = r, data = None,
      addr = (if hasPaddr r then r_paddr r AND scast (NOT (blkSize - 1)) else 0),
      secure = (hasPaddr r \<and> isSet (r_flags r) SECURE), psize = blkSize,
      bytesValid = [], qosValue = 0, htmReturnReason = NO_FAIL, htmTransactionUid = 0,
      headerDelay = 0, snoopDelay = 0, payloadDelay = 0, senderState = []\<rparr>"

definition getAddr :: "('a) packet_scheme \<Rightarrow> Addr option" where
  "getAddr p = do { check (isSet (flags p) VALID_ADDR); Some (addr p) }"

definition getSize :: "('a) packet_scheme \<Rightarrow> u32 option" where
  "getSize p = do { check (isSet (flags p) VALID_SIZE); Some (psize p) }"

definition setAddr :: "Addr \<Rightarrow> packet \<Rightarrow> packet option" where
  "setAddr a p = do { check (isSet (flags p) VALID_ADDR); Some (p\<lparr>addr := a\<rparr>) }"

definition setSize :: "u32 \<Rightarrow> packet \<Rightarrow> packet option" where
  "setSize sz p =
     do { check (\<not> isSet (flags p) VALID_SIZE);
          Some (p\<lparr>psize := sz, flags := set_flags VALID_SIZE (flags p)\<rparr>) }"

definition getOffset :: "u32 \<Rightarrow> packet \<Rightarrow> Addr option" where
  "getOffset blk p = do { a \<leftarrow> getAddr p; Some (a AND ucast (blk - 1)) }"

definition getBlockAddr :: "u32 \<Rightarrow> packet \<Rightarrow> Addr option" where
  "getBlockAddr blk p = do { a \<leftarrow> getAddr p; Some (a AND NOT (ucast (blk - 1))) }"

definition isSecure :: "packet \<Rightarrow> bool option" where
  "isSecure p = do { check (isSet (flags p) VALID_ADDR); Some (secure p) }"

definition hasRespData :: "('a) packet_scheme \<Rightarrow> bool" where
  "hasRespData p = hasData (responseCommand (cmd p))"

definition isMaskedWrite :: "('a) packet_scheme \<Rightarrow> bool" where
  "isMaskedWrite p = (cmd p = WriteReq \<and> isMasked (req p))"

definition isWholeLineWrite :: "u32 \<Rightarrow> packet \<Rightarrow> bool option" where
  "isWholeLineWrite blk p =
     (if cmd p = WriteReq \<or> cmd p = WriteLineReq
      then do { off \<leftarrow> getOffset blk p;
                if off = 0
                then do { sz \<leftarrow> getSize p; Some (sz = blk \<and> \<not> isMaskedWrite p) }
                else Some False }
      else Some False)"

text \<open>Snoop and status flags.\<close>

definition cacheResponding :: "packet \<Rightarrow> bool" where
  "cacheResponding p = isSet (flags p) CACHE_RESPONDING"

definition setCacheResponding :: "packet \<Rightarrow> packet option" where
  "setCacheResponding p =
     do { check (isRequest (cmd p));
          check (\<not> isSet (flags p) CACHE_RESPONDING);
          Some (p\<lparr>flags := set_flags CACHE_RESPONDING (flags p)\<rparr>) }"

definition setHasSharers :: "packet \<Rightarrow> packet" where
  "setHasSharers p = p\<lparr>flags := set_flags HAS_SHARERS (flags p)\<rparr>"

definition hasSharers :: "packet \<Rightarrow> bool" where
  "hasSharers p = isSet (flags p) HAS_SHARERS"

definition setExpressSnoop :: "packet \<Rightarrow> packet" where
  "setExpressSnoop p = p\<lparr>flags := set_flags EXPRESS_SNOOP (flags p)\<rparr>"

definition isExpressSnoop :: "packet \<Rightarrow> bool" where
  "isExpressSnoop p = isSet (flags p) EXPRESS_SNOOP"

definition setResponderHadWritable :: "packet \<Rightarrow> packet option" where
  "setResponderHadWritable p =
     do { check (cacheResponding p);
          check (\<not> isSet (flags p) RESPONDER_HAD_WRITABLE);
          Some (p\<lparr>flags := set_flags RESPONDER_HAD_WRITABLE (flags p)\<rparr>) }"

definition copyResponderFlags :: "packet \<Rightarrow> packet \<Rightarrow> packet option" where
  "copyResponderFlags other p =
     do { check (isRequest (cmd p));
          check (\<not> cacheResponding other \<or> \<not> cacheResponding p);
          Some (p\<lparr>flags := set_flags (flags other AND RESPONDER_FLAGS) (flags p)\<rparr>) }"

definition setWriteThrough :: "packet \<Rightarrow> packet option" where
  "setWriteThrough p =
     do { check (isWrite (cmd p) \<and> (isEviction (cmd p) \<or> cmd p = WriteClean));
          Some (p\<lparr>flags := set_flags WRITE_THROUGH (flags p)\<rparr>) }"

definition setSatisfied :: "packet \<Rightarrow> packet option" where
  "setSatisfied p =
     do { check (isClean (cmd p));
          check (\<not> isSet (flags p) SATISFIED);
          Some (p\<lparr>flags := set_flags SATISFIED (flags p)\<rparr>) }"

text \<open>Turning a request into its response, and error responses.\<close>

definition makeResponse :: "packet \<Rightarrow> packet option" where
  "makeResponse p =
     do { check (needsResponse (cmd p));
          check (isRequest (cmd p));
          Some (p\<lparr>cmd := responseCommand (cmd p),
                  flags := clear EXPRESS_SNOOP (flags p)\<rparr>) }"

definition setBadAddress :: "packet \<Rightarrow> packet option" where
  "setBadAddress p = do { check (isResponse (cmd p)); Some (p\<lparr>cmd := BadAddressError\<rparr>) }"

definition setBadCommand :: "packet \<Rightarrow> packet option" where
  "setBadCommand p =
     do { check (isResponse (cmd p));
          Some (p\<lparr>cmd := if isWrite (cmd p) then WriteError else ReadError\<rparr>) }"

definition copyError :: "packet \<Rightarrow> packet \<Rightarrow> packet option" where
  "copyError other p = do { check (isError (cmd other)); Some (p\<lparr>cmd := cmd other\<rparr>) }"

definition setFunctionalResponseStatus :: "bool \<Rightarrow> packet \<Rightarrow> packet" where
  "setFunctionalResponseStatus success p =
     (if \<not> success
      then p\<lparr>cmd := if isWrite (cmd p) then FunctionalWriteError else FunctionalReadError\<rparr>
      else p)"

definition convertScToWrite :: "packet \<Rightarrow> packet option" where
  "convertScToWrite p =
     do { check (isLLSC (cmd p)); check (isWrite (cmd p)); Some (p\<lparr>cmd := WriteReq\<rparr>) }"

definition convertLlToRead :: "packet \<Rightarrow> packet option" where
  "convertLlToRead p =
     do { check (isLLSC (cmd p)); check (isRead (cmd p)); Some (p\<lparr>cmd := ReadReq\<rparr>) }"

text \<open>The stack of sender states.\<close>

definition pushSenderState :: "SenderState \<Rightarrow> 'a packet_scheme \<Rightarrow> 'a packet_scheme" where
  "pushSenderState st p = p\<lparr>senderState := st # senderState p\<rparr>"

definition popSenderState :: "'a packet_scheme \<Rightarrow> (SenderState \<times> 'a packet_scheme) option" where
  "popSenderState p =
     (case senderState p of [] \<Rightarrow> None
      | st # rest \<Rightarrow> Some (st, p\<lparr>senderState := rest\<rparr>))"

text \<open>
  \<open>findNextSenderState<T>\<close>: the most recently pushed state of type \<open>T\<close>;
  \<open>cast\<close> is the \<open>dynamic_cast<T*>\<close> of the loop.
\<close>

fun findNextSenderState :: "(SenderState \<Rightarrow> 't option) \<Rightarrow> SenderState list \<Rightarrow> 't option" where
  "findNextSenderState cast [] = None"
| "findNextSenderState cast (st # rest) =
     (case cast st of Some t \<Rightarrow> Some t | None \<Rightarrow> findNextSenderState cast rest)"

text \<open>Hardware transactional memory.\<close>

definition setHtmTransactionFailedInCache :: "HtmCacheFailure \<Rightarrow> packet \<Rightarrow> packet" where
  "setHtmTransactionFailedInCache rc p =
     p\<lparr>flags := (if rc \<noteq> NO_FAIL then set_flags FAILS_TRANSACTION (flags p) else flags p),
       htmReturnReason := rc\<rparr>"

definition makeHtmTransactionalReqResponse :: "HtmCacheFailure \<Rightarrow> packet \<Rightarrow> packet option" where
  "makeHtmTransactionalReqResponse rc p =
     do { check (needsResponse (cmd p));
          check (isRequest (cmd p));
          let p1 = setHtmTransactionFailedInCache rc (p\<lparr>cmd := responseCommand (cmd p)\<rparr>);
          Some (p1\<lparr>flags := clear EXPRESS_SNOOP (flags p1)\<rparr>) }"

definition setHtmTransactional :: "u64 \<Rightarrow> packet \<Rightarrow> packet" where
  "setHtmTransactional uid p =
     p\<lparr>flags := set_flags FROM_TRANSACTION (flags p), htmTransactionUid := uid\<rparr>"

text \<open>
  The payload. \<open>new uint8_t[n]\<close> leaves the bytes indeterminate: they are the
  argument \<open>junk\<close>.
\<close>

definition allocate :: "(nat \<Rightarrow> u8) \<Rightarrow> 'a packet_scheme \<Rightarrow> 'a packet_scheme option" where
  "allocate junk p =
     (if hasData (cmd p) \<or> hasRespData p
      then do { check (noneSet (flags p) (STATIC_DATA OR DYNAMIC_DATA));
                sz \<leftarrow> getSize p;
                Some (p\<lparr>flags := set_flags DYNAMIC_DATA (flags p),
                        data := Some (map junk [0..<unat sz])\<rparr>) }
      else Some p)"

definition deleteData :: "packet \<Rightarrow> packet" where
  "deleteData p = p\<lparr>flags := clear (STATIC_DATA OR DYNAMIC_DATA) (flags p), data := None\<rparr>"

text \<open>The copying constructor \<open>Packet(pkt, clear_flags, alloc_data)\<close>.\<close>

definition copyPacket :: "(nat \<Rightarrow> u8) \<Rightarrow> packet \<Rightarrow> bool \<Rightarrow> bool \<Rightarrow> packet option" where
  "copyPacket junk pkt clear_flags alloc_data =
     (let f0 = (if \<not> clear_flags then set_flags (flags pkt AND COPY_FLAGS) 0 else 0);
          f1 = set_flags (flags pkt AND (VALID_ADDR OR VALID_SIZE)) f0;
          p0 = pkt\<lparr>flags := f1, data := None, htmReturnReason := NO_FAIL,
                   htmTransactionUid := 0, snoopDelay := 0\<rparr>;
          p1 = (if isSet (flags pkt) FROM_TRANSACTION
                then setHtmTransactional (htmTransactionUid pkt) p0 else p0);
          p2 = (if isSet (flags pkt) FAILS_TRANSACTION
                then setHtmTransactionFailedInCache (htmReturnReason pkt) p1 else p1) in
      if alloc_data
      then (if isSet (flags pkt) STATIC_DATA
            then Some (p2\<lparr>data := data pkt, flags := set_flags STATIC_DATA (flags p2)\<rparr>)
            else allocate junk p2)
      else Some p2)"

text \<open>\<open>memcpy(dst + doff, src + soff, n)\<close>; leaving an array is undefined behaviour.\<close>

definition memcpy :: "u8 list \<Rightarrow> nat \<Rightarrow> u8 list \<Rightarrow> nat \<Rightarrow> nat \<Rightarrow> u8 list option" where
  "memcpy dst doff src soff n =
     (if doff + n \<le> length dst \<and> soff + n \<le> length src
      then Some (take doff dst @ take n (drop soff src) @ drop (doff + n) dst)
      else None)"

text \<open>\<open>getPtr()\<close> and \<open>getConstPtr()\<close>.\<close>

definition getConstPtr :: "packet \<Rightarrow> u8 list option" where
  "getConstPtr p = do { check (isSet (flags p) (STATIC_DATA OR DYNAMIC_DATA)); data p }"

definition getPtr :: "packet \<Rightarrow> u8 list option" where
  "getPtr p = do { check (isSet (flags p) (STATIC_DATA OR DYNAMIC_DATA));
                   check (\<not> isMaskedWrite p); data p }"

text \<open>\<open>writeData(p)\<close>: copy the payload, or only its enabled bytes, to \<open>dst\<close>.\<close>

fun writeMasked :: "bool list \<Rightarrow> u8 list \<Rightarrow> u8 list \<Rightarrow> u8 list" where
  "writeMasked (e # es) (b # bs) (d # ds) = (if e then b else d) # writeMasked es bs ds"
| "writeMasked _ _ ds = ds"

definition writeData :: "packet \<Rightarrow> u8 list \<Rightarrow> u8 list option" where
  "writeData p dst =
     (if \<not> isMaskedWrite p
      then do { src \<leftarrow> getConstPtr p; sz \<leftarrow> getSize p; memcpy dst 0 src 0 (unat sz) }
      else do { sz \<leftarrow> getSize p;
                check (length (byteEnable (req p)) = unat sz);
                src \<leftarrow> getConstPtr p;
                check (unat sz \<le> length src \<and> unat sz \<le> length dst);
                Some (writeMasked (byteEnable (req p)) src dst) })"

text \<open>
  \<open>trySatisfyFunctional(obj, addr, is_secure, size, _data)\<close>: satisfy a
  functional access from (read) or to (write) an array of data at \<open>a\<close>. Returns
  whether the packet is now satisfied, the packet and the array. Printing is not
  modelled: a print packet is left alone.
\<close>

definition trySatisfyFunctional ::
  "Addr \<Rightarrow> bool \<Rightarrow> u32 \<Rightarrow> u8 list option \<Rightarrow> packet \<Rightarrow> (bool \<times> packet \<times> u8 list option) option"
where
  "trySatisfyFunctional a is_secure sz d p =
     do { func_start \<leftarrow> getAddr p;
          fsz \<leftarrow> getSize p;
          let func_end = func_start + ucast fsz - 1;
          let val_start = a;
          let val_end = val_start + scast sz - 1;
          if is_secure \<noteq> secure p \<or> func_start > val_end \<or> val_start > func_end
          then Some (False, p, d)
          else if isPrint (cmd p) then do { check (d = None); Some (False, p, d) }
          else (case d of
            None \<Rightarrow> Some (False, p, d)
          | Some dat \<Rightarrow>
            let val_offset = (if func_start > val_start then func_start - val_start else 0);
                func_offset = (if func_start < val_start then val_start - func_start else 0);
                overlap_size = min val_end func_end + 1 - max val_start func_start;
                fo = unat func_offset; ov = unat overlap_size in
            if isRead (cmd p)
            then do { ptr \<leftarrow> getPtr p;
                      ptr' \<leftarrow> memcpy ptr fo dat (unat val_offset) ov;
                      let bv = (if bytesValid p = [] then replicate (unat fsz) False
                                else bytesValid p);
                      check (length bv = unat fsz);
                      let before = list_all id (take fo bv);
                      let bv' = take fo bv @ replicate ov True @ drop (fo + ov) bv;
                      let after = list_all id (drop (fo + ov) bv');
                      Some (before \<and> after,
                            p\<lparr>data := Some ptr', bytesValid := bv'\<rparr>, d) }
            else if isWrite (cmd p)
            then do { ptr \<leftarrow> getConstPtr p;
                      dat' \<leftarrow> memcpy dat (unat val_offset) ptr fo ov;
                      Some (False, p, Some dat') }
            else None) }"

text \<open>Address comparisons.\<close>

definition matchBlockAddr :: "Addr \<Rightarrow> bool \<Rightarrow> u32 \<Rightarrow> packet \<Rightarrow> bool option" where
  "matchBlockAddr a is_secure blk p =
     do { b \<leftarrow> getBlockAddr blk p;
          if b = a then do { s \<leftarrow> isSecure p; Some (s = is_secure) } else Some False }"

definition matchAddr :: "Addr \<Rightarrow> bool \<Rightarrow> packet \<Rightarrow> bool option" where
  "matchAddr a is_secure p =
     do { b \<leftarrow> getAddr p;
          if b = a then do { s \<leftarrow> isSecure p; Some (s = is_secure) } else Some False }"

definition mustCheckAbove :: "packet \<Rightarrow> bool" where
  "mustCheckAbove p = (cmd p = HardPFReq \<or> isEviction (cmd p))"

definition isCleanEviction :: "packet \<Rightarrow> bool" where
  "isCleanEviction p = (cmd p = CleanEvict \<or> cmd p = WritebackClean)"

section \<open>Facts\<close>

lemma push_pop_SenderState: "popSenderState (pushSenderState st p) = Some (st, p)"
  by (simp add: popSenderState_def pushSenderState_def)

lemma length_memcpy: "memcpy dst doff src soff n = Some r \<Longrightarrow> length r = length dst"
  by (auto simp: memcpy_def split: if_splits)

lemma nth_memcpy:
  assumes "memcpy dst doff src soff n = Some r" and "i < length dst"
  shows "r ! i = (if doff \<le> i \<and> i < doff + n then src ! (soff + (i - doff)) else dst ! i)"
proof -
  define mid where "mid = take n (drop soff src)"
  have r: "r = take doff dst @ mid @ drop (doff + n) dst"
    and "doff + n \<le> length dst" and "soff + n \<le> length src"
    using assms(1) by (auto simp: memcpy_def mid_def split: if_splits)
  moreover from this have "length mid = n" by (simp add: mid_def)
  moreover have "j < n \<Longrightarrow> mid ! j = src ! (soff + j)" for j
    using \<open>soff + n \<le> length src\<close> by (simp add: mid_def)
  ultimately show ?thesis using assms(2) by (auto simp: nth_append)
qed

lemma memcpy_defined:
  "doff + n \<le> length dst \<Longrightarrow> soff + n \<le> length src \<Longrightarrow> \<exists>r. memcpy dst doff src soff n = Some r"
  by (simp add: memcpy_def)

lemma length_writeMasked [simp]: "length (writeMasked es bs ds) = length ds"
  by (induction es bs ds rule: writeMasked.induct) simp_all

lemma nth_writeMasked:
  "i < length es \<Longrightarrow> length es \<le> length bs \<Longrightarrow> length es \<le> length ds \<Longrightarrow>
   writeMasked es bs ds ! i = (if es ! i then bs ! i else ds ! i)"
  by (induction es bs ds arbitrary: i rule: writeMasked.induct)
     (auto simp: nth_Cons split: nat.splits)

text \<open>The ranges of a functional access, read as natural numbers.\<close>

lemma last_byte:
  fixes a :: Addr and k :: u64
  assumes "0 < k" and "unat a + unat k < 2 ^ 64"
  shows "unat (a + k - 1) = unat a + unat k - 1"
proof -
  have "unat (a + k) = unat a + unat k" using assms by (simp add: word_nat)
  moreover have "1 \<le> a + k"
    using assms calculation by (simp add: word_le_nat_alt word_less_nat_alt)
  ultimately show ?thesis by (simp add: unat_sub)
qed

lemma overlap_size:
  fixes fs vs k l :: u64
  assumes k: "0 < k" "unat fs + unat k < 2 ^ 64" and l: "0 < l" "unat vs + unat l < 2 ^ 64"
    and meet: "fs \<le> vs + l - 1" "vs \<le> fs + k - 1"
  shows "unat (min (vs + l - 1) (fs + k - 1) + 1 - max vs fs) =
           min (unat vs + unat l) (unat fs + unat k) - max (unat vs) (unat fs)"
proof -
  let ?e = "min (vs + l - 1) (fs + k - 1)" and ?b = "max vs fs"
  note ends = last_byte [OF k] last_byte [OF l]
  have pos: "0 < unat k" "0 < unat l" using k(1) l(1) by (simp_all add: word_less_nat_alt)
  have e: "unat ?e = min (unat vs + unat l) (unat fs + unat k) - 1"
    using ends pos by (auto simp: min_def word_le_nat_alt)
  have b: "unat ?b = max (unat vs) (unat fs)" by (auto simp: max_def word_le_nat_alt)
  have e1: "unat (?e + 1) = min (unat vs + unat l) (unat fs + unat k)"
    using e pos k l by (simp add: word_nat)
  have "?b \<le> ?e + 1" unfolding word_le_nat_alt e1 b
    using meet ends pos by (auto simp: word_le_nat_alt)
  then show ?thesis by (simp add: unat_sub e1 b)
qed

lemma unat_ucast_up: "unat (ucast (w :: u32) :: u64) = unat w"
proof -
  have "unat w < 2 ^ 64" using unsigned_less [of w, where 'a = nat] by simp
  then show ?thesis by (simp add: unsigned_ucast_eq take_bit_nat_eq_self)
qed

lemma scast_small:
  fixes sz :: u32
  assumes "unat sz < 2 ^ 31"
  shows "(scast sz :: u64) = ucast sz"
proof -
  have "uint sz < 2 ^ 31"
    using assms by (metis of_nat_less_iff of_nat_numeral of_nat_power uint_nat)
  moreover have "- (2 ^ 31) \<le> uint sz" by (rule order_trans [of _ 0]) simp_all
  ultimately have "sint sz = uint sz"
    unfolding sint_uint by (intro signed_take_bit_int_eq_self) simp_all
  then show ?thesis by (simp only: scast_eq ucast_eq)
qed

lemma read_not_print: "isRead c \<Longrightarrow> \<not> isPrint c"
  by (cases c) (simp_all add: cmd_table)

lemma read_not_masked: "isRead (cmd p) \<Longrightarrow> \<not> isMaskedWrite p"
  by (auto simp: isMaskedWrite_def cmd_table)

lemma all_valid_split:
  assumes "fo + ov \<le> length v"
  defines "v' \<equiv> take fo v @ replicate ov True @ drop (fo + ov) v"
  shows "(list_all id (take fo v) \<and> list_all id (drop (fo + ov) v')) =
           (\<forall>i < length v. v' ! i)"
proof -
  have "length v' = length v" using assms by simp
  then have "(\<forall>i < length v. v' ! i) = list_all id v'" by (simp add: list_all_length)
  moreover have "list_all id (replicate ov True)" by (simp add: list_all_iff)
  moreover have "drop (fo + ov) v' = drop (fo + ov) v" using assms by simp
  ultimately show ?thesis by (simp add: v'_def del: drop_append)
qed

text \<open>The offsets and the length of the overlap, and what a functional read computes from them.\<close>

lemma functional_read_eval:
  assumes valid: "isSet (flags p) VALID_ADDR" "isSet (flags p) VALID_SIZE"
      "isSet (flags p) (STATIC_DATA OR DYNAMIC_DATA)"
    and rd: "isRead (cmd p)"
    and bytes: "data p = Some bytes" "length bytes = unat (psize p)"
    and v: "v = (if bytesValid p = [] then replicate (unat (psize p)) False else bytesValid p)" "length v = unat (psize p)"
    and k: "0 < psize p" "unat (addr p) + unat (psize p) < 2 ^ 64"
    and l: "0 < sz" "unat sz < 2 ^ 31" "unat a + unat sz < 2 ^ 64" "length dat = unat sz"
    and meet: "unat (addr p) < unat a + unat sz" "unat a < unat (addr p) + unat (psize p)"
    and offs: "fo = unat a - unat (addr p)" "vo = unat (addr p) - unat a"
      "ov = min (unat a + unat sz) (unat (addr p) + unat (psize p)) - max (unat a) (unat (addr p))"
    and v': "v' = take fo v @ replicate ov True @ drop (fo + ov) v"
  shows "\<exists>bytes'. memcpy bytes fo dat vo ov = Some bytes' \<and>
    trySatisfyFunctional a (secure p) sz (Some dat) p =
      Some (list_all id (take fo v) \<and> list_all id (drop (fo + ov) v'),
            p\<lparr>data := Some bytes', bytesValid := v'\<rparr>, Some dat)"
proof -
  let ?fs = "unat (addr p)" and ?n = "unat (psize p)" and ?vs = "unat a" and ?m = "unat sz"
  have sc: "(scast sz :: u64) = ucast sz" using l(2) by (rule scast_small)
  have k64: "0 < (ucast (psize p) :: u64)" "?fs + unat (ucast (psize p) :: u64) < 2 ^ 64"
    and l64: "0 < (ucast sz :: u64)" "?vs + unat (ucast sz :: u64) < 2 ^ 64"
    using k l by (simp_all add: word_less_nat_alt unat_ucast_up)
  note ends = last_byte [OF k64] last_byte [OF l64]
  have pos: "0 < ?n" "0 < ?m" using k(1) l(1) by (simp_all add: word_less_nat_alt)
  have m1: "addr p \<le> a + ucast sz - 1" and m2: "a \<le> addr p + ucast (psize p) - 1"
    using meet pos by (simp_all add: word_le_nat_alt ends unat_ucast_up)
  have vo: "unat (if a < addr p then addr p - a else 0) = vo"
    by (simp add: offs(2) unat_sub word_less_nat_alt word_le_nat_alt)
  have fo: "unat (if addr p < a then a - addr p else 0) = fo"
    by (simp add: offs(1) unat_sub word_less_nat_alt word_le_nat_alt)
  have ov: "unat (min (a + ucast sz - 1) (addr p + ucast (psize p) - 1) + 1 - max a (addr p)) = ov"
    using overlap_size [OF k64 l64 m1 m2] by (simp add: offs(3) unat_ucast_up)
  have room: "fo + ov \<le> length bytes" "vo + ov \<le> length dat"
    using meet pos bytes(2) l(4) by (auto simp: offs min_def max_def)
  obtain bytes' where cp: "memcpy bytes fo dat vo ov = Some bytes'"
    using memcpy_defined [OF room] by blast
  have ptr: "getPtr p = Some bytes"
    using valid(3) bytes(1) rd by (simp add: getPtr_def read_not_masked)
  have "trySatisfyFunctional a (secure p) sz (Some dat) p =
      Some (list_all id (take fo v) \<and> list_all id (drop (fo + ov) v'),
            p\<lparr>data := Some bytes', bytesValid := v'\<rparr>, Some dat)"
    using valid rd read_not_print [OF rd] m1 m2 vo fo ov ptr cp v(2)
    by (simp add: trySatisfyFunctional_def getAddr_def getSize_def Let_def sc
        v(1) [symmetric] v' [symmetric] not_less [symmetric] del: drop_append)
  then show ?thesis using cp by blast
qed

text \<open>
  C10: A functional read on data that overlaps the packet: the bytes of the packet that lie
  in the given memory are copied from it and marked valid, all others keep their value
  and mark, and the packet is reported satisfied exactly if every byte is valid now. The
  memory is not changed.
\<close>

theorem functional_read:
  assumes valid: "isSet (flags p) VALID_ADDR" "isSet (flags p) VALID_SIZE"
      "isSet (flags p) (STATIC_DATA OR DYNAMIC_DATA)"
    and rd: "isRead (cmd p)"
    and bytes: "data p = Some bytes" "length bytes = unat (psize p)"
    and bv: "bytesValid p = [] \<or> length (bytesValid p) = unat (psize p)"
    and k: "0 < psize p" "unat (addr p) + unat (psize p) < 2 ^ 64"
    and l: "0 < sz" "unat sz < 2 ^ 31" "unat a + unat sz < 2 ^ 64" "length dat = unat sz"
    and meet: "unat (addr p) < unat a + unat sz" "unat a < unat (addr p) + unat (psize p)"
  defines "in_array \<equiv> \<lambda>i. unat a \<le> unat (addr p) + i \<and> unat (addr p) + i < unat a + unat sz"
  shows "\<exists>b p' bytes'. trySatisfyFunctional a (secure p) sz (Some dat) p = Some (b, p', Some dat) \<and>
           b = (\<forall>i < unat (psize p). bytesValid p' ! i) \<and>
           length (bytesValid p') = unat (psize p) \<and>
           data p' = Some bytes' \<and> length bytes' = unat (psize p) \<and>
           (\<forall>i < unat (psize p).
              bytesValid p' ! i = (in_array i \<or> (bytesValid p \<noteq> [] \<and> bytesValid p ! i)) \<and>
              bytes' ! i = (if in_array i then dat ! (unat (addr p) + i - unat a) else bytes ! i))"
proof -
  let ?fs = "unat (addr p)" and ?n = "unat (psize p)" and ?vs = "unat a" and ?m = "unat sz"
  have pos: "0 < ?n" "0 < ?m" using k(1) l(1) by (simp_all add: word_less_nat_alt)
  define fo where "fo = ?vs - ?fs"
  define vo where "vo = ?fs - ?vs"
  define ov where "ov = min (?vs + ?m) (?fs + ?n) - max ?vs ?fs"
  have room: "fo + ov \<le> length bytes"
    using meet pos bytes(2) by (auto simp: fo_def ov_def min_def max_def)
  define v where "v = (if bytesValid p = [] then replicate ?n False else bytesValid p)"
  have v: "length v = ?n" using bv by (auto simp: v_def)
  define v' where "v' = take fo v @ replicate ov True @ drop (fo + ov) v"
  have v': "length v' = ?n" using room bytes(2) v by (simp add: v'_def)
  obtain bytes' where cp: "memcpy bytes fo dat vo ov = Some bytes'"
    and eq: "trySatisfyFunctional a (secure p) sz (Some dat) p =
      Some (list_all id (take fo v) \<and> list_all id (drop (fo + ov) v'),
            p\<lparr>data := Some bytes', bytesValid := v'\<rparr>, Some dat)"
    using functional_read_eval [OF valid rd bytes v_def v k l meet fo_def vo_def ov_def v'_def] by blast
  have nth_v': "v' ! i = (in_array i \<or> v ! i)" if "i < ?n" for i
    using that room bytes(2) v meet pos
    by (auto simp: v'_def nth_append in_array_def fo_def ov_def min_def max_def)
  have nth_v: "v ! i = (bytesValid p \<noteq> [] \<and> bytesValid p ! i)" if "i < ?n" for i
    using that by (simp add: v_def)
  have all: "(list_all id (take fo v) \<and> list_all id (drop (fo + ov) v')) = (\<forall>i < ?n. v' ! i)"
    using all_valid_split [of fo ov v] room bytes(2) v by (simp add: v'_def del: drop_append)
  have dat': "bytes' ! i = (if in_array i then dat ! (?fs + i - ?vs) else bytes ! i)"
    if "i < ?n" for i
    using that bytes(2) meet pos
    by (auto simp: nth_memcpy [OF cp] in_array_def fo_def vo_def ov_def min_def max_def
        intro!: arg_cong [where f = "(!) dat"])
  have bit: "v' ! i = (in_array i \<or> (bytesValid p \<noteq> [] \<and> bytesValid p ! i)) \<and>
      bytes' ! i = (if in_array i then dat ! (?fs + i - ?vs) else bytes ! i)"
    if "i < ?n" for i
    using nth_v' [OF that] nth_v [OF that] dat' [OF that] by blast
  show ?thesis
    by (rule exI, rule exI [of _ "p\<lparr>data := Some bytes', bytesValid := v'\<rparr>"],
        rule exI [of _ bytes'], rule conjI [OF eq])
       (simp add: all v' length_memcpy [OF cp] bytes(2) bit)
qed

text \<open>A read of four bytes at 0x102 against eight bytes stored at 0x100.\<close>

definition read4 :: packet where
  "read4 = \<lparr>flags = VALID_ADDR OR VALID_SIZE OR DYNAMIC_DATA, cmd = ReadReq,
     req = mkRequest 0 0x102 4 0 0, data = Some [0, 0, 0, 0], addr = 0x102, secure = False,
     psize = 4, bytesValid = [], qosValue = 0, htmReturnReason = NO_FAIL, htmTransactionUid = 0,
     headerDelay = 0, snoopDelay = 0, payloadDelay = 0, senderState = []\<rparr>"

theorem functional_read_witness:
  "\<exists>p'. trySatisfyFunctional 0x100 False 8 (Some [1, 2, 3, 4, 5, 6, 7, 8]) read4 =
     Some (True, p', Some [1, 2, 3, 4, 5, 6, 7, 8]) \<and> data p' = Some [3, 4, 5, 6]"
proof -
  let ?d = "[1, 2, 3, 4, 5, 6, 7, 8] :: u8 list"
  have f: "isSet (flags read4) VALID_ADDR" "isSet (flags read4) VALID_SIZE"
    "isSet (flags read4) (STATIC_DATA OR DYNAMIC_DATA)"
    by (simp_all add: read4_def isSet_def packet_flag_defs)
  have sel: "cmd read4 = ReadReq" "data read4 = Some [0, 0, 0, 0]" "psize read4 = 4"
    "addr read4 = 0x102" "bytesValid read4 = []" "secure read4 = False"
    by (simp_all add: read4_def)
  obtain b p' bytes' where r: "trySatisfyFunctional 0x100 (secure read4) 8 (Some ?d) read4 =
      Some (b, p', Some ?d)"
    "b = (\<forall>i < 4. bytesValid p' ! i)" "data p' = Some bytes'" "length bytes' = 4"
    "\<forall>i < 4. bytesValid p' ! i \<and> bytes' ! i = ?d ! (2 + i)"
    using functional_read [of read4 "[0, 0, 0, 0]" 8 "0x100" ?d] f by (auto simp: sel)
  have "bytes' ! 0 = 3" "bytes' ! 1 = 4" "bytes' ! 2 = 5" "bytes' ! 3 = 6"
    using r(5) by simp_all
  then have "bytes' ! i = [3, 4, 5, 6] ! i" if "i < 4" for i
  proof -
    from that consider "i = 0" | "i = 1" | "i = 2" | "i = 3" by linarith
    then show ?thesis using \<open>bytes' ! 0 = 3\<close> \<open>bytes' ! 1 = 4\<close> \<open>bytes' ! 2 = 5\<close> \<open>bytes' ! 3 = 6\<close>
      by cases simp_all
  qed
  then have "bytes' = [3, 4, 5, 6]" using r(4) by (intro nth_equalityI) simp_all
  then show ?thesis using r by (auto simp: sel)
qed

text \<open>
  C11: \<open>makeResponse\<close> turns a request that needs a response into the response with
  the same address, size, data and sender states; it cannot be applied twice, and it
  aborts on any other packet.
\<close>

theorem makeResponse_once:
  "(makeResponse p \<noteq> None) = needsResponse (cmd p) \<and>
   (\<forall>p'. makeResponse p = Some p' \<longrightarrow>
      isResponse (cmd p') \<and> \<not> isRequest (cmd p') \<and> makeResponse p' = None \<and>
      addr p' = addr p \<and> psize p' = psize p \<and> data p' = data p \<and>
      senderState p' = senderState p \<and> \<not> isExpressSnoop p')"
  using response_row [of "cmd p"] request_not_response [of "responseCommand (cmd p)"]
  by (cases "needsResponse (cmd p)")
    (simp_all add: makeResponse_def isExpressSnoop_def isSet_clear_same)

theorem makeResponse_once_witness:
  "\<exists>p'. makeResponse read4 = Some p' \<and> isResponse (cmd p') \<and> makeResponse p' = None"
proof -
  have "needsResponse (cmd read4)" by (simp add: read4_def)
  then show ?thesis using makeResponse_once [of read4] by auto
qed

end
