(* ===== verification/UcieFlit.thy ===== *)
theory UcieFlit
  imports Packet
begin

text \<open>
  Flits and the engines that pack TLPs into flits and unpack them: the enumerations,
  class \<open>UcieFlitPacket\<close>, class \<open>FlitPacker\<close> and class \<open>FlitUnpacker\<close> of
  \<open>mem/ucie/ucie_link.hh\<close> and \<open>mem/ucie/ucie_link.cc\<close>. A flit extends the
  record of packets as the class extends \<open>Packet\<close>. Packets are named by
  addresses, the values of \<open>PacketPtr\<close>.
\<close>

section \<open>The code\<close>

type_synonym ptr = nat

datatype UcieLinkState = INIT | ACTIVE | RETRAIN

datatype FlitType = PROTOCOL | FLIT_LEVEL_ACK | FLIT_LEVEL_NAK | LINK_MGMT | NULL_FLIT

datatype ProtocolType = PCIE | CXL_IO | CXL_MEM | CXL_CACHE | STREAMING | UNDEFINED

definition UCIE_FLIT_SIZE_BYTES :: u32 where "UCIE_FLIT_SIZE_BYTES = 256"
definition UCIE_PAYLOAD_SIZE_BYTES :: u32 where "UCIE_PAYLOAD_SIZE_BYTES = 236"
definition UCIE_DLP_BYTES :: u32 where "UCIE_DLP_BYTES = 6"
definition UCIE_CRC_BYTES :: u32 where "UCIE_CRC_BYTES = 4"
definition UCIE_RESERVED_BYTES :: u32 where "UCIE_RESERVED_BYTES = 10"
definition TLP_HEADER_BYTES :: u32 where "TLP_HEADER_BYTES = 16"

record flit = packet +
  flitType :: FlitType
  protocol :: ProtocolType
  timestamp :: Tick
  payloadBytes :: u32
  isRetransmission :: bool
  originalPackets :: "ptr list"
  isFirstSegment :: bool
  isLastSegment :: bool
  isMiddleSegment :: bool

text \<open>
  The constructor \<open>UcieFlitPacket(req, cmd, time_stamp, type)\<close> on the request
  \<open>Request(0, size, 0, 0)\<close> that every caller makes for it. The 256 bytes it
  allocates are never read; fresh memory is taken to be zero.
\<close>

definition newFlit :: "Tick \<Rightarrow> u32 \<Rightarrow> Command \<Rightarrow> Tick \<Rightarrow> FlitType \<Rightarrow> flit option" where
  "newFlit now reqSize c time_stamp type =
     allocate (\<lambda>_. 0)
       (packet.extend (mkBlockPacket (mkRequest now 0 reqSize 0 0) c UCIE_FLIT_SIZE_BYTES)
          \<lparr>flitType = type, protocol = PCIE, timestamp = time_stamp, payloadBytes = 0,
           isRetransmission = False, originalPackets = [],
           isFirstSegment = True, isLastSegment = True, isMiddleSegment = False\<rparr>)"

subsection \<open>FlitPacker\<close>

record StagedTLP =
  staged_pkt :: ptr
  bytesRemaining :: u32

record FlitPacker =
  currentBytes :: u32
  tlpQueue :: "StagedTLP list"

definition packer_init :: FlitPacker where
  "packer_init = \<lparr>currentBytes = 0, tlpQueue = []\<rparr>"

text \<open>\<open>processIncomingTLP(pkt)\<close>, where \<open>sz\<close> is \<open>pkt->getSize()\<close>.\<close>

definition processIncomingTLP :: "ptr \<Rightarrow> u32 \<Rightarrow> FlitPacker \<Rightarrow> FlitPacker" where
  "processIncomingTLP pkt sz k =
     (let totalTlpSize = sz + 16 in
      k\<lparr>tlpQueue := tlpQueue k @ [\<lparr>staged_pkt = pkt, bytesRemaining = totalTlpSize\<rparr>],
        currentBytes := currentBytes k + totalTlpSize\<rparr>)"

text \<open>
  The loop of \<open>assembleFlit\<close>: the TLPs whose last byte fits in the space, and
  the queue that is left.
\<close>

fun fillFlit :: "u32 \<Rightarrow> StagedTLP list \<Rightarrow> ptr list \<times> StagedTLP list" where
  "fillFlit spaceLeft [] = ([], [])"
| "fillFlit spaceLeft (t # ts) =
     (if spaceLeft = 0 then ([], t # ts)
      else if bytesRemaining t \<le> spaceLeft
      then let (pkts, rest) = fillFlit (spaceLeft - bytesRemaining t) ts
           in (staged_pkt t # pkts, rest)
      else ([], t\<lparr>bytesRemaining := bytesRemaining t - spaceLeft\<rparr> # ts))"

text \<open>
  \<open>assembleFlit(isFlush)\<close> at tick \<open>now\<close>: the flit (\<open>None\<close> is the null
  pointer) and the packer. The flag \<open>isFlush\<close> is not used by the code.
\<close>

definition assembleFlit :: "Tick \<Rightarrow> bool \<Rightarrow> FlitPacker \<Rightarrow> (flit option \<times> FlitPacker) option" where
  "assembleFlit now flush k =
     (if currentBytes k = 0 then Some (None, k)
      else
        let bytesToPack = min (currentBytes k) UCIE_PAYLOAD_SIZE_BYTES in
        do { f \<leftarrow> newFlit now UCIE_PAYLOAD_SIZE_BYTES WriteReq now PROTOCOL;
             let (pkts, rest) = fillFlit bytesToPack (tlpQueue k);
             Some (Some (f\<lparr>payloadBytes := bytesToPack, originalPackets := pkts\<rparr>),
                   k\<lparr>tlpQueue := rest, currentBytes := currentBytes k - bytesToPack\<rparr>) })"

definition hasStagedData :: "FlitPacker \<Rightarrow> bool" where
  "hasStagedData k = (currentBytes k > 0)"

definition stagedBytes :: "FlitPacker \<Rightarrow> u32" where
  "stagedBytes k = currentBytes k"

definition forceFlush :: "Tick \<Rightarrow> FlitPacker \<Rightarrow> (flit option \<times> FlitPacker) option" where
  "forceFlush now k =
     (if hasStagedData k then assembleFlit now True k else Some (None, k))"

subsection \<open>FlitUnpacker\<close>

definition processReceivedFlit :: "flit \<Rightarrow> ptr list" where
  "processReceivedFlit f = originalPackets f"

section \<open>Facts\<close>

text \<open>Building a flit never aborts, and what the fields of a new flit are.\<close>

lemma mkBlockPacket_sel [simp]:
  "cmd (mkBlockPacket r c n) = c" "psize (mkBlockPacket r c n) = n"
  "senderState (mkBlockPacket r c n) = []" "headerDelay (mkBlockPacket r c n) = 0"
  "flags (mkBlockPacket r c n) =
     set_flags VALID_SIZE (if hasPaddr r then set_flags VALID_ADDR 0 else 0)"
  by (simp_all add: mkBlockPacket_def)

lemma newFlit_eq:
  assumes "c = WriteReq \<or> c = WriteResp"
  obtains f where "newFlit now sz c t ty = Some f" and "flitType f = ty" and "timestamp f = t"
    and "cmd f = c" and "\<not> isRetransmission f" and "originalPackets f = []"
    and "psize f = 256" and "senderState f = []" and "payloadBytes f = 0"
    and "isSet (flags f) VALID_SIZE"
proof -
  have "\<exists>f. newFlit now sz c t ty = Some f \<and> flitType f = ty \<and> timestamp f = t \<and>
      cmd f = c \<and> \<not> isRetransmission f \<and> originalPackets f = [] \<and> psize f = 256 \<and>
      senderState f = [] \<and> payloadBytes f = 0 \<and> isSet (flags f) VALID_SIZE"
    using assms
    by (auto simp: newFlit_def allocate_def hasRespData_def getSize_def packet.defs mkBlockPacket_def
        UCIE_FLIT_SIZE_BYTES_def noneSet_iff isSet_or isSet_set_other isSet_set_same
        packet_flag_defs)
  then show ?thesis using that by blast
qed

text \<open>The new flit itself, as a value; its fields are what evaluation needs.\<close>

definition aFlit :: "Tick \<Rightarrow> u32 \<Rightarrow> Command \<Rightarrow> Tick \<Rightarrow> FlitType \<Rightarrow> flit" where
  "aFlit now sz c t ty = the (newFlit now sz c t ty)"

lemma newFlit_aFlit:
  assumes "c = WriteReq \<or> c = WriteResp"
  shows "newFlit now sz c t ty = Some (aFlit now sz c t ty)"
    and "timestamp (aFlit now sz c t ty) = t" and "flitType (aFlit now sz c t ty) = ty"
    and "cmd (aFlit now sz c t ty) = c" and "\<not> isRetransmission (aFlit now sz c t ty)"
    and "originalPackets (aFlit now sz c t ty) = []" and "payloadBytes (aFlit now sz c t ty) = 0"
    and "senderState (aFlit now sz c t ty) = []"
proof -
  obtain f where "newFlit now sz c t ty = Some f" "timestamp f = t" "flitType f = ty" "cmd f = c"
    "\<not> isRetransmission f" "originalPackets f = []" "payloadBytes f = 0" "senderState f = []"
    using newFlit_eq [OF assms] by metis
  then show "newFlit now sz c t ty = Some (aFlit now sz c t ty)"
    and "timestamp (aFlit now sz c t ty) = t" and "flitType (aFlit now sz c t ty) = ty"
    and "cmd (aFlit now sz c t ty) = c" and "\<not> isRetransmission (aFlit now sz c t ty)"
    and "originalPackets (aFlit now sz c t ty) = []" and "payloadBytes (aFlit now sz c t ty) = 0"
    and "senderState (aFlit now sz c t ty) = []"
    by (simp_all add: aFlit_def)
qed

lemmas newFlit_eval = newFlit_aFlit [of WriteReq, simplified] newFlit_aFlit [of WriteResp, simplified]

subsection \<open>Packing as cutting a stream of bytes\<close>

text \<open>
  The bytes staged in the packer, as a list: \<open>Some p\<close> is the last byte of the
  TLP \<open>p\<close>, \<open>None\<close> any other byte. A flit is the next 236 bytes of this
  stream, and carries the TLPs whose last byte is among them.
\<close>

definition tlp_bytes :: "StagedTLP \<Rightarrow> ptr option list" where
  "tlp_bytes t = replicate (unat (bytesRemaining t) - 1) None @ [Some (staged_pkt t)]"

definition byte_stream :: "StagedTLP list \<Rightarrow> ptr option list" where
  "byte_stream q = concat (map tlp_bytes q)"

definition last_bytes :: "ptr option list \<Rightarrow> ptr list" where
  "last_bytes bs = concat (map (\<lambda>b. case b of None \<Rightarrow> [] | Some p \<Rightarrow> [p]) bs)"

text \<open>The invariant of the packer: every TLP has bytes left and \<open>currentBytes\<close> counts them.\<close>

definition packer_ok :: "FlitPacker \<Rightarrow> bool" where
  "packer_ok k \<longleftrightarrow> (\<forall>t \<in> set (tlpQueue k). bytesRemaining t \<noteq> 0) \<and>
     unat (currentBytes k) = (\<Sum>t \<leftarrow> tlpQueue k. unat (bytesRemaining t))"

lemma unat_pos [simp]: "w \<noteq> 0 \<Longrightarrow> 0 < unat (w :: 'a::len word)"
  by (simp add: unat_gt_0)

lemma byte_stream_simps [simp]:
  "byte_stream [] = []"
  "byte_stream (t # ts) = tlp_bytes t @ byte_stream ts"
  "byte_stream (ts @ us) = byte_stream ts @ byte_stream us"
  by (simp_all add: byte_stream_def)

lemma last_bytes_simps [simp]:
  "last_bytes [] = []"
  "last_bytes (None # bs) = last_bytes bs"
  "last_bytes (Some p # bs) = p # last_bytes bs"
  "last_bytes (bs @ cs) = last_bytes bs @ last_bytes cs"
  "last_bytes (replicate n None) = []"
  by (simp_all add: last_bytes_def)

lemma length_tlp_bytes: "bytesRemaining t \<noteq> 0 \<Longrightarrow> length (tlp_bytes t) = unat (bytesRemaining t)"
  using unat_pos [of "bytesRemaining t"] by (simp add: tlp_bytes_def)

lemma length_byte_stream:
  "\<forall>t \<in> set q. bytesRemaining t \<noteq> 0 \<Longrightarrow>
   length (byte_stream q) = (\<Sum>t \<leftarrow> q. unat (bytesRemaining t))"
  by (induction q) (simp_all add: length_tlp_bytes)

lemma last_bytes_tlp [simp]: "last_bytes (tlp_bytes t) = [staged_pkt t]"
  by (simp add: tlp_bytes_def)

lemma last_bytes_stream: "last_bytes (byte_stream q) = map staged_pkt q"
  by (induction q) simp_all

lemma cut_tlp:
  assumes "n < bytesRemaining t"
  shows "take (unat n) (tlp_bytes t) = replicate (unat n) None"
    and "drop (unat n) (tlp_bytes t) = tlp_bytes (t\<lparr>bytesRemaining := bytesRemaining t - n\<rparr>)"
proof -
  have lt: "unat n < unat (bytesRemaining t)" using assms by (simp add: word_less_nat_alt)
  have sub: "unat (bytesRemaining t - n) = unat (bytesRemaining t) - unat n"
    using assms by (simp add: unat_sub)
  from lt show "take (unat n) (tlp_bytes t) = replicate (unat n) None"
    by (simp add: tlp_bytes_def min_def)
  from lt show "drop (unat n) (tlp_bytes t) = tlp_bytes (t\<lparr>bytesRemaining := bytesRemaining t - n\<rparr>)"
    by (simp add: tlp_bytes_def sub)
qed

text \<open>The loop of \<open>assembleFlit\<close> cuts the stream.\<close>

lemma fillFlit_cuts:
  assumes "\<forall>t \<in> set q. bytesRemaining t \<noteq> 0"
  shows "fst (fillFlit n q) = last_bytes (take (unat n) (byte_stream q)) \<and>
         byte_stream (snd (fillFlit n q)) = drop (unat n) (byte_stream q) \<and>
         (\<forall>t \<in> set (snd (fillFlit n q)). bytesRemaining t \<noteq> 0)"
  using assms
proof (induction n q rule: fillFlit.induct)
  case (1 n)
  then show ?case by simp
next
  case (2 n t ts)
  have len: "length (tlp_bytes t) = unat (bytesRemaining t)"
    using "2.prems" by (simp add: length_tlp_bytes)
  consider (full) "n = 0" | (fits) "n \<noteq> 0" "bytesRemaining t \<le> n"
    | (cut) "n \<noteq> 0" "n < bytesRemaining t" by fastforce
  then show ?case
  proof cases
    case full
    then show ?thesis using "2.prems" by simp
  next
    case fits
    then have "unat (n - bytesRemaining t) = unat n - unat (bytesRemaining t)"
      and "unat (bytesRemaining t) \<le> unat n" by (simp_all add: unat_sub word_le_nat_alt)
    then show ?thesis
      using fits "2.IH" "2.prems" by (simp add: split_beta len)
  next
    case cut
    have "unat n < unat (bytesRemaining t)" using cut by (simp add: word_less_nat_alt)
    then show ?thesis using cut "2.prems"
      by (auto simp: len cut_tlp not_le [symmetric])
  qed
qed

lemma packer_ok_init: "packer_ok packer_init"
  by (simp add: packer_ok_def packer_init_def)

lemma packer_ok_incoming:
  assumes "packer_ok k" and "unat (currentBytes k) + unat sz + 16 < 2 ^ 32"
  shows "packer_ok (processIncomingTLP p sz k)"
    and "byte_stream (tlpQueue (processIncomingTLP p sz k)) =
           byte_stream (tlpQueue k) @ replicate (unat sz + 15) None @ [Some p]"
proof -
  have s: "unat (sz + 16) = unat sz + 16" using assms(2) by (simp add: word_nat)
  then have nz: "sz + 16 \<noteq> 0" by (metis add_is_0 unat_0 zero_neq_numeral)
  have "unat (currentBytes k + (sz + 16)) = unat (currentBytes k) + unat (sz + 16)"
    using assms(2) s by (simp add: word_nat)
  then show "packer_ok (processIncomingTLP p sz k)"
    using assms(1) nz by (simp add: packer_ok_def processIncomingTLP_def Let_def)
  show "byte_stream (tlpQueue (processIncomingTLP p sz k)) =
      byte_stream (tlpQueue k) @ replicate (unat sz + 15) None @ [Some p]"
    using s by (simp add: processIncomingTLP_def Let_def tlp_bytes_def)
qed

lemma packer_length: "packer_ok k \<Longrightarrow> length (byte_stream (tlpQueue k)) = unat (currentBytes k)"
  by (simp add: packer_ok_def length_byte_stream)

lemma assembleFlit_empty: "currentBytes k = 0 \<Longrightarrow> assembleFlit now b k = Some (None, k)"
  by (simp add: assembleFlit_def)

lemma assembleFlit_cuts:
  assumes ok: "packer_ok k" and data: "currentBytes k \<noteq> 0"
  obtains f k' where "assembleFlit now b k = Some (Some f, k')" and "packer_ok k'"
    and "originalPackets f = last_bytes (take 236 (byte_stream (tlpQueue k)))"
    and "byte_stream (tlpQueue k') = drop 236 (byte_stream (tlpQueue k))"
    and "unat (payloadBytes f) = min 236 (unat (currentBytes k))"
    and "unat (currentBytes k') = unat (currentBytes k) - 236"
    and "flitType f = PROTOCOL" and "cmd f = WriteReq" and "\<not> isRetransmission f"
    and "timestamp f = now" and "senderState f = []"
proof -
  define n where "n = min (currentBytes k) UCIE_PAYLOAD_SIZE_BYTES"
  have n: "unat n = min 236 (unat (currentBytes k))"
    by (simp add: n_def min_def UCIE_PAYLOAD_SIZE_BYTES_def word_le_nat_alt)
  have le: "n \<le> currentBytes k" by (simp add: n_def)
  obtain f where f: "newFlit now UCIE_PAYLOAD_SIZE_BYTES WriteReq now PROTOCOL = Some f"
    "flitType f = PROTOCOL" "timestamp f = now" "cmd f = WriteReq" "\<not> isRetransmission f"
    "senderState f = []"
    by (rule newFlit_eq [of WriteReq]) auto
  define k' where "k' = k\<lparr>tlpQueue := snd (fillFlit n (tlpQueue k)),
                          currentBytes := currentBytes k - n\<rparr>"
  have eq: "assembleFlit now b k =
      Some (Some (f\<lparr>payloadBytes := n, originalPackets := fst (fillFlit n (tlpQueue k))\<rparr>), k')"
    using data f(1) by (simp add: assembleFlit_def Let_def n_def [symmetric] k'_def split_beta)
  have pos: "\<forall>t \<in> set (tlpQueue k). bytesRemaining t \<noteq> 0" using ok by (simp add: packer_ok_def)
  note cut = fillFlit_cuts [OF pos, of n]
  have len: "length (byte_stream (tlpQueue k)) = unat (currentBytes k)" using ok by (rule packer_length)
  have stream: "take (unat n) (byte_stream (tlpQueue k)) = take 236 (byte_stream (tlpQueue k))"
    "drop (unat n) (byte_stream (tlpQueue k)) = drop 236 (byte_stream (tlpQueue k))"
    using len by (simp_all add: n min_def)
  have sub: "unat (currentBytes k - n) = unat (currentBytes k) - unat n"
    using le by (simp add: unat_sub)
  have "packer_ok k'"
    unfolding packer_ok_def
    using cut len length_byte_stream [of "tlpQueue k'"] by (simp add: k'_def sub)
  then show ?thesis
    by (rule that [OF eq]) (use cut stream n sub f in \<open>auto simp: k'_def\<close>)
qed

subsection \<open>Packing everything that is staged\<close>

text \<open>
  The flits the packer produces when it is emptied with \<open>forceFlush\<close>, as the
  loop of \<open>recvTimingReq\<close> and the pack event do between them.
\<close>

partial_function (option) flushAll :: "Tick \<Rightarrow> FlitPacker \<Rightarrow> flit list option" where
  "flushAll now k =
     do { r \<leftarrow> forceFlush now k;
          case r of (None, k') \<Rightarrow> Some []
          | (Some f, k') \<Rightarrow> do { fs \<leftarrow> flushAll now k'; Some (f # fs) } }"

lemma flushAll_spec:
  assumes "packer_ok k"
  shows "\<exists>fs. flushAll now k = Some fs \<and>
           concat (map processReceivedFlit fs) = map staged_pkt (tlpQueue k) \<and>
           length fs = ceil_div (unat (currentBytes k)) 236 \<and>
           (\<Sum>f \<leftarrow> fs. unat (payloadBytes f)) = unat (currentBytes k)"
  using assms
proof (induction "unat (currentBytes k)" arbitrary: k rule: less_induct)
  case less
  show ?case
  proof (cases "currentBytes k = 0")
    case True
    then have "byte_stream (tlpQueue k) = []" using packer_length [OF less.prems] by simp
    then have "map staged_pkt (tlpQueue k) = []" using last_bytes_stream [of "tlpQueue k"] by simp
    moreover have "forceFlush now k = Some (None, k)"
      using True by (simp add: forceFlush_def hasStagedData_def)
    ultimately show ?thesis using True by (subst flushAll.simps) simp
  next
    case False
    let ?n = "unat (currentBytes k)"
    have n: "0 < ?n" using False by simp
    obtain f k' where a: "assembleFlit now True k = Some (Some f, k')" and ok: "packer_ok k'"
      and pk: "originalPackets f = last_bytes (take 236 (byte_stream (tlpQueue k)))"
      and st: "byte_stream (tlpQueue k') = drop 236 (byte_stream (tlpQueue k))"
      and pl: "unat (payloadBytes f) = min 236 ?n" and cb: "unat (currentBytes k') = ?n - 236"
      by (rule assembleFlit_cuts [OF less.prems False])
    have "unat (currentBytes k') < ?n" using cb n by simp
    from less.hyps [OF this ok] obtain fs where fs: "flushAll now k' = Some fs"
      "concat (map processReceivedFlit fs) = map staged_pkt (tlpQueue k')"
      "length fs = ceil_div (?n - 236) 236"
      "(\<Sum>f \<leftarrow> fs. unat (payloadBytes f)) = ?n - 236"
      using cb by auto
    have "map staged_pkt (tlpQueue k) =
            last_bytes (take 236 (byte_stream (tlpQueue k)) @ drop 236 (byte_stream (tlpQueue k)))"
      by (simp only: append_take_drop_id last_bytes_stream)
    also have "\<dots> = originalPackets f @ map staged_pkt (tlpQueue k')"
      by (simp add: pk st [symmetric] last_bytes_stream)
    finally have split: "map staged_pkt (tlpQueue k) =
      originalPackets f @ map staged_pkt (tlpQueue k')" .
    have "flushAll now k = Some (f # fs)"
      using a fs(1) False
      by (subst flushAll.simps) (simp add: forceFlush_def hasStagedData_def word_neq_0_conv)
    moreover have "length (f # fs) = ceil_div ?n 236"
      using fs(3) n ceil_div_step [of 236 ?n] ceil_div_le_one [of ?n 236]
      by (cases "236 \<le> ?n") auto
    ultimately show ?thesis
      using split fs(2,4) pl by (auto simp: processReceivedFlit_def)
  qed
qed

text \<open>Staging a sequence of TLPs, given by address and size.\<close>

definition stageAll :: "(ptr \<times> u32) list \<Rightarrow> FlitPacker \<Rightarrow> FlitPacker" where
  "stageAll tlps k = fold (\<lambda>(p, sz). processIncomingTLP p sz) tlps k"

lemma stageAll_spec:
  assumes "packer_ok k"
    and "unat (currentBytes k) + (\<Sum>(p, sz) \<leftarrow> tlps. unat sz + 16) < 2 ^ 32"
  shows "packer_ok (stageAll tlps k)"
    and "map staged_pkt (tlpQueue (stageAll tlps k)) = map staged_pkt (tlpQueue k) @ map fst tlps"
    and "unat (currentBytes (stageAll tlps k)) =
           unat (currentBytes k) + (\<Sum>(p, sz) \<leftarrow> tlps. unat sz + 16)"
proof -
  have "packer_ok (stageAll tlps k) \<and>
    map staged_pkt (tlpQueue (stageAll tlps k)) = map staged_pkt (tlpQueue k) @ map fst tlps \<and>
    unat (currentBytes (stageAll tlps k)) =
      unat (currentBytes k) + (\<Sum>(p, sz) \<leftarrow> tlps. unat sz + 16)"
    using assms
  proof (induction tlps arbitrary: k)
    case (Cons t tlps)
    obtain p sz where t: "t = (p, sz)" by (cases t)
    let ?k = "processIncomingTLP p sz k"
    have fits: "unat (currentBytes k) + unat sz + 16 < 2 ^ 32" using Cons.prems(2) t by simp
    then have "unat (sz + 16) = unat sz + 16" by (simp add: word_nat)
    then have bytes: "unat (currentBytes ?k) = unat (currentBytes k) + unat sz + 16"
      using fits by (simp add: processIncomingTLP_def Let_def word_nat)
    have "packer_ok ?k" by (rule packer_ok_incoming(1) [OF Cons.prems(1) fits])
    from Cons.IH [OF this] Cons.prems(2) bytes t show ?case
      by (simp add: stageAll_def) (simp add: processIncomingTLP_def Let_def)
  qed (simp add: stageAll_def)
  then show "packer_ok (stageAll tlps k)"
    and "map staged_pkt (tlpQueue (stageAll tlps k)) = map staged_pkt (tlpQueue k) @ map fst tlps"
    and "unat (currentBytes (stageAll tlps k)) =
           unat (currentBytes k) + (\<Sum>(p, sz) \<leftarrow> tlps. unat sz + 16)"
    by simp_all
qed

text \<open>
  C5: Packing and unpacking: TLPs that are staged in an empty packer and then flushed
  flit by flit come out of the unpacker as the same TLPs in the same order, each once.
  The number of flits is the number of bytes (16 bytes of header per TLP) divided by the
  236 bytes of a flit's payload, rounded up, and the payload bytes of the flits add up.
\<close>

theorem pack_unpack_roundtrip:
  assumes "(\<Sum>(p, sz) \<leftarrow> tlps. unat sz + 16) < 2 ^ 32"
  shows "\<exists>fs. flushAll now (stageAll tlps packer_init) = Some fs \<and>
           concat (map processReceivedFlit fs) = map fst tlps \<and>
           length fs = ceil_div (\<Sum>(p, sz) \<leftarrow> tlps. unat sz + 16) 236 \<and>
           (\<Sum>f \<leftarrow> fs. unat (payloadBytes f)) = (\<Sum>(p, sz) \<leftarrow> tlps. unat sz + 16)"
proof -
  have fits: "unat (currentBytes packer_init) + (\<Sum>(p, sz) \<leftarrow> tlps. unat sz + 16) < 2 ^ 32"
    using assms by (simp add: packer_init_def)
  note st = stageAll_spec [OF packer_ok_init fits]
  from flushAll_spec [OF st(1), of now] st(2,3) show ?thesis by (simp add: packer_init_def)
qed

theorem pack_unpack_roundtrip_witness:
  "\<exists>fs. flushAll 7 (stageAll [(1, 64), (2, 300), (3, 0)] packer_init) = Some fs \<and>
     concat (map processReceivedFlit fs) = [1, 2, 3] \<and> length fs = 2"
  using pack_unpack_roundtrip [of "[(1, 64), (2, 300), (3, 0)]" 7] by (auto simp: ceil_div_def)

text \<open>
  C6: \<open>assembleFlit\<close> refines the cutting of a byte stream: on a packer that holds
  data it never aborts, cuts the next 236 bytes (or all that is there) off the stream of
  staged bytes, gives the flit exactly the TLPs whose last byte was cut, and leaves a
  packer that is well-formed again and holds the rest of the stream.
\<close>

theorem assembleFlit_refines:
  assumes "packer_ok k" and "currentBytes k \<noteq> 0"
  shows "\<exists>f k'. assembleFlit now flush k = Some (Some f, k') \<and> packer_ok k' \<and>
    originalPackets f = last_bytes (take 236 (byte_stream (tlpQueue k))) \<and>
    byte_stream (tlpQueue k') = drop 236 (byte_stream (tlpQueue k)) \<and>
    unat (payloadBytes f) = min 236 (length (byte_stream (tlpQueue k)))"
  using assembleFlit_cuts [OF assms, of now flush] packer_length [OF assms(1)] by metis

theorem assembleFlit_refines_witness:
  "\<exists>f k'. assembleFlit 5 False (processIncomingTLP 9 400 packer_init) = Some (Some f, k') \<and>
     originalPackets f = [] \<and> unat (payloadBytes f) = 236"
proof -
  let ?k = "processIncomingTLP 9 400 packer_init"
  have ok: "packer_ok ?k"
    by (rule packer_ok_incoming(1) [OF packer_ok_init]) (simp add: packer_init_def)
  have nz: "currentBytes ?k \<noteq> 0" by (simp add: processIncomingTLP_def packer_init_def)
  have stream: "byte_stream (tlpQueue ?k) = replicate 415 None @ [Some 9]"
    by (simp add: processIncomingTLP_def packer_init_def tlp_bytes_def)
  show ?thesis using assembleFlit_refines [OF ok nz, of 5 False] unfolding stream
    by (auto simp del: append_Cons)
qed

end
