(* ===== verification/EventOrder.thy ===== *)
theory EventOrder
  imports Prelude "HOL-Library.Product_Lexorder"
begin

text \<open>
  The order of events and the abstract event queue. An event is due at a tick and
  has a priority; the comparison operators of class \<open>Event\<close> in
  \<open>sim/eventq.hh\<close> order events by tick and then by priority, which is the
  lexicographic order on pairs. The abstract queue is the list of the scheduled
  events in the order in which they are served; \<open>EventQueue\<close> shows that the
  linked bins of the code implement it.
\<close>

section \<open>The comparison operators\<close>

type_synonym evkey = "Tick \<times> int"

definition ev_less :: "evkey \<Rightarrow> evkey \<Rightarrow> bool" where
  "ev_less l r = (fst l < fst r \<or> (fst l = fst r \<and> snd l < snd r))"

definition ev_greater :: "evkey \<Rightarrow> evkey \<Rightarrow> bool" where
  "ev_greater l r = (fst l > fst r \<or> (fst l = fst r \<and> snd l > snd r))"

definition ev_le :: "evkey \<Rightarrow> evkey \<Rightarrow> bool" where
  "ev_le l r = (fst l < fst r \<or> (fst l = fst r \<and> snd l \<le> snd r))"

definition ev_ge :: "evkey \<Rightarrow> evkey \<Rightarrow> bool" where
  "ev_ge l r = (fst l > fst r \<or> (fst l = fst r \<and> snd l \<ge> snd r))"

definition ev_eq :: "evkey \<Rightarrow> evkey \<Rightarrow> bool" where
  "ev_eq l r = (fst l = fst r \<and> snd l = snd r)"

definition ev_neq :: "evkey \<Rightarrow> evkey \<Rightarrow> bool" where
  "ev_neq l r = (fst l \<noteq> fst r \<or> snd l \<noteq> snd r)"

lemma ev_order_iff [simp]:
  "ev_less l r \<longleftrightarrow> l < r" "ev_greater l r \<longleftrightarrow> r < l" "ev_le l r \<longleftrightarrow> l \<le> r"
  "ev_ge l r \<longleftrightarrow> r \<le> l" "ev_eq l r \<longleftrightarrow> l = r" "ev_neq l r \<longleftrightarrow> l \<noteq> r"
  by (cases l; cases r; auto simp: ev_less_def ev_greater_def ev_le_def ev_ge_def ev_eq_def
      ev_neq_def)+

section \<open>The abstract queue\<close>

type_synonym 'e evq = "(evkey \<times> 'e) list"

text \<open>A new event goes before the events that are not due earlier: last in, first out
  among events of the same tick and priority.\<close>

fun q_insert :: "evkey \<Rightarrow> 'e \<Rightarrow> 'e evq \<Rightarrow> 'e evq" where
  "q_insert k e [] = [(k, e)]"
| "q_insert k e (x # q) = (if fst x < k then x # q_insert k e q else (k, e) # x # q)"

definition q_remove :: "'e \<Rightarrow> 'e evq \<Rightarrow> 'e evq" where
  "q_remove e q = filter (\<lambda>x. snd x \<noteq> e) q"

definition q_member :: "'e \<Rightarrow> 'e evq \<Rightarrow> bool" where
  "q_member e q = (e \<in> snd ` set q)"

definition q_sorted :: "'e evq \<Rightarrow> bool" where
  "q_sorted q = sorted (map fst q)"

text \<open>The tick at which an event is due.\<close>

fun q_when :: "'e \<Rightarrow> 'e evq \<Rightarrow> Tick option" where
  "q_when e [] = None"
| "q_when e (x # q) = (if snd x = e then Some (fst (fst x)) else q_when e q)"

lemma set_q_insert [simp]: "set (q_insert k e q) = insert (k, e) (set q)"
  by (induction q) auto

lemma q_insert_not_Nil [simp]: "q_insert k e q \<noteq> []"
  by (cases q) auto

lemma length_q_insert [simp]: "length (q_insert k e q) = Suc (length q)"
  by (induction q) auto

lemma q_sorted_insert: "q_sorted q \<Longrightarrow> q_sorted (q_insert k e q)"
proof (induction q)
  case (Cons x q)
  then show ?case by (auto simp: q_sorted_def simp del: less_eq_prod_simp less_prod_simp
        intro: order_trans [of k "fst x"])
qed (simp add: q_sorted_def)

lemma q_sorted_remove: "q_sorted q \<Longrightarrow> q_sorted (q_remove e q)"
  by (simp add: q_sorted_def q_remove_def sorted_filter)

lemma set_q_remove [simp]: "set (q_remove e q) = {x \<in> set q. snd x \<noteq> e}"
  by (auto simp: q_remove_def)

lemma q_member_simps [simp]:
  "\<not> q_member e []"
  "q_member e (q_insert k e' q) \<longleftrightarrow> e = e' \<or> q_member e q"
  "q_member e (q_remove e' q) \<longleftrightarrow> e \<noteq> e' \<and> q_member e q"
  by (auto simp: q_member_def)

lemma distinct_q_insert:
  "\<not> q_member e q \<Longrightarrow> distinct (map snd q) \<Longrightarrow> distinct (map snd (q_insert k e q))"
  by (induction q) (auto simp: q_member_def image_iff)

lemma distinct_q_remove: "distinct (map snd q) \<Longrightarrow> distinct (map snd (q_remove e q))"
  by (simp add: q_remove_def distinct_map_filter)

lemma q_remove_insert: "\<not> q_member e q \<Longrightarrow> q_remove e (q_insert k e q) = q"
proof (induction q)
  case (Cons x q)
  then have "q_remove e (x # q) = x # q"
    by (auto simp: q_remove_def q_member_def image_iff filter_id_conv)
  with Cons show ?case by (auto simp: q_remove_def q_member_def)
qed (simp add: q_remove_def)

text \<open>Serving in order: the head of a sorted queue is due no later than any other event.\<close>

lemma q_head_least: "q_sorted (x # q) \<Longrightarrow> y \<in> set q \<Longrightarrow> fst x \<le> fst y"
  by (simp add: q_sorted_def)

end
