(* ===== verification/UcieLink.thy ===== *)
theory UcieLink
  imports Complex_Main Clocked UcieFlit EventOrder
begin

text \<open>
  Class \<open>UcieLink\<close> of \<open>mem/ucie/ucie_link.hh\<close> and
  \<open>mem/ucie/ucie_link.cc\<close>: its ports, event handlers, retry mechanism and
  statistics.

  The experiments connect two links (\<open>ucie_link_0\<close> on the CPU chiplet,
  \<open>ucie_link_1\<close> on the accelerator chiplet), so the state of the model holds two
  links, the objects on the heap (packets and flits, by address), the event queue
  and the current tick. Handlers take the link they run on. A call through a port
  runs code of another object, which may call back into this link before it
  returns; it is a function argument of the handler, \<open>sendReq\<close> for
  \<open>txPort.sendTimingReq\<close> and \<open>sendResp\<close> for \<open>rxPort.sendTimingResp\<close>,
  and acts on the whole state. \<open>UcieSystem\<close> puts the handlers of the other link
  there.

  The parameters of type \<open>double\<close> are rational numbers; the rounding of
  \<open>double\<close> arithmetic is not modelled. Statistics are unbounded counters. A
  histogram is the list of its samples.
\<close>

section \<open>State\<close>

datatype link_id = Link0 | Link1

datatype link_event = PackTlp link_id | SendFlit link_id | RetryTimeout link_id

datatype obj = PktObj packet | FlitObj flit

record ucie_stats =
  totalFlitsSent :: nat
  totalTLPsSent :: nat
  totalPayloadBytes :: nat
  totalPaddingBytes :: nat
  totalRetransmissions :: nat
  totalFlitsNaked :: nat
  totalFlitsReceived :: nat
  totalCrcErrors :: nat
  totalAcksSent :: nat
  totalNaksSent :: nat
  totalTLPsReceived :: nat
  tlpLatency :: "Tick list"
  simDurationTicks :: Tick

record ucie_link =
  txPacker :: FlitPacker
  linkState :: UcieLinkState
  dataRate :: rat
  numLanes :: int
  physDelay :: Tick
  creditPool :: u32
  errorRate :: rat
  rxFlitCounter :: u64
  rxBitsReceived :: u64
  nextErrorAtBits :: u64
  txCredits :: u32
  txBlocked :: bool
  rxWaitingForRetry :: bool
  tlpBlocked :: bool
  tlpSendQueue :: "ptr list"
  txSendQueue :: "ptr list"
  retryBuffer :: "ptr list"
  lastProcessedTimestamp :: Tick
  lastAckedTimestamp :: Tick
  simStartTick :: Tick
  simLastTick :: Tick
  retryTimeoutDelay :: Tick
  clk :: clocked
  clockPeriod :: Tick
  stats :: ucie_stats

text \<open>The parameters of \<open>UcieLink.py\<close>, and the clock period of the link's domain.\<close>

record ucie_params =
  data_rate :: rat
  num_lanes :: int
  phys_delay :: Tick
  credit_pool :: u32
  error_rate :: rat
  retry_timeout :: Tick
  clk_period :: Tick

text \<open>
  The environment, on the outer ports: the memory side of \<open>Link1\<close> takes
  \<open>memRoom\<close> more requests before it refuses one, the CPU side of \<open>Link0\<close>
  \<open>cpuRoom\<close> more responses. \<open>memTaken\<close> and \<open>cpuTaken\<close> are what they have
  taken, \<open>cpuSent\<close> the requests of the CPU that \<open>Link0\<close> has taken.
\<close>

record environment =
  memRoom :: nat
  memTaken :: "ptr list"
  cpuRoom :: nat
  cpuTaken :: "ptr list"
  cpuSent :: "ptr list"

record sys =
  heap :: "ptr \<rightharpoonup> obj"
  nextPtr :: ptr
  eventq :: "link_event evq"
  curTick :: Tick
  link :: "link_id \<Rightarrow> ucie_link"
  env :: environment

definition upd_link :: "link_id \<Rightarrow> (ucie_link \<Rightarrow> ucie_link) \<Rightarrow> sys \<Rightarrow> sys" where
  "upd_link i f s = s\<lparr>link := (link s)(i := f (link s i))\<rparr>"

definition upd_stats :: "(ucie_stats \<Rightarrow> ucie_stats) \<Rightarrow> ucie_link \<Rightarrow> ucie_link" where
  "upd_stats f l = l\<lparr>stats := f (stats l)\<rparr>"

subsection \<open>Objects\<close>

text \<open>
  \<open>new\<close> takes an address that was not used before; \<open>delete\<close> makes the
  address dead; using a dead address is undefined behaviour, an abort.
\<close>

definition new_obj :: "obj \<Rightarrow> sys \<Rightarrow> ptr \<times> sys" where
  "new_obj ob s = (nextPtr s, s\<lparr>heap := (heap s)(nextPtr s \<mapsto> ob), nextPtr := Suc (nextPtr s)\<rparr>)"

definition delete_obj :: "ptr \<Rightarrow> sys \<Rightarrow> sys option" where
  "delete_obj p s =
     do { check (heap s p \<noteq> None); Some (s\<lparr>heap := (heap s)(p := None)\<rparr>) }"

definition flit_at :: "(ptr \<rightharpoonup> obj) \<Rightarrow> ptr \<Rightarrow> flit option" where
  "flit_at h p = (case h p of Some (FlitObj f) \<Rightarrow> Some f | _ \<Rightarrow> None)"

definition pkt_at :: "(ptr \<rightharpoonup> obj) \<Rightarrow> ptr \<Rightarrow> packet option" where
  "pkt_at h p = (case h p of Some (PktObj q) \<Rightarrow> Some q | _ \<Rightarrow> None)"

definition put_flit :: "ptr \<Rightarrow> flit \<Rightarrow> sys \<Rightarrow> sys" where
  "put_flit p f s = s\<lparr>heap := (heap s)(p \<mapsto> FlitObj f)\<rparr>"

definition put_pkt :: "ptr \<Rightarrow> packet \<Rightarrow> sys \<Rightarrow> sys" where
  "put_pkt p q s = s\<lparr>heap := (heap s)(p \<mapsto> PktObj q)\<rparr>"

text \<open>The fields of the packet that a pointer of type \<open>PacketPtr\<close> reads.\<close>

definition cmd_at :: "(ptr \<rightharpoonup> obj) \<Rightarrow> ptr \<Rightarrow> Command option" where
  "cmd_at h p =
     (case h p of None \<Rightarrow> None | Some (FlitObj f) \<Rightarrow> Some (cmd f) | Some (PktObj q) \<Rightarrow> Some (cmd q))"

subsection \<open>Events\<close>

text \<open>\<open>EventManager::schedule\<close> and \<open>deschedule\<close>; the link's events have the
  default priority 0.\<close>

definition scheduled :: "link_event \<Rightarrow> sys \<Rightarrow> bool" where
  "scheduled ev s = q_member ev (eventq s)"

definition schedule :: "link_event \<Rightarrow> Tick \<Rightarrow> sys \<Rightarrow> sys option" where
  "schedule ev when s =
     do { check (when \<ge> curTick s);
          check (\<not> scheduled ev s);
          Some (s\<lparr>eventq := q_insert (when, 0) ev (eventq s)\<rparr>) }"

definition deschedule :: "link_event \<Rightarrow> sys \<Rightarrow> sys option" where
  "deschedule ev s =
     do { check (scheduled ev s); Some (s\<lparr>eventq := q_remove ev (eventq s)\<rparr>) }"

text \<open>The guarded calls \<open>if (!ev.scheduled()) schedule(ev, when)\<close> and
  \<open>if (ev.scheduled()) deschedule(ev)\<close> of the handlers.\<close>

definition schedule_unless :: "link_event \<Rightarrow> Tick \<Rightarrow> sys \<Rightarrow> sys option" where
  "schedule_unless ev when s = (if \<not> scheduled ev s then schedule ev when s else Some s)"

definition deschedule_if :: "link_event \<Rightarrow> sys \<Rightarrow> sys option" where
  "deschedule_if ev s = (if scheduled ev s then deschedule ev s else Some s)"

text \<open>\<open>clockEdge(cycles)\<close> of the link, which also aligns its clock.\<close>

definition link_clockEdge :: "link_id \<Rightarrow> u64 \<Rightarrow> sys \<Rightarrow> Tick \<times> sys" where
  "link_clockEdge i cycles s =
     (let (t, c) = clockEdge (curTick s) (clockPeriod (link s i)) cycles (clk (link s i)) in
      (t, upd_link i (\<lambda>l. l\<lparr>clk := c\<rparr>) s))"

section \<open>Construction\<close>

definition stats_init :: ucie_stats where
  "stats_init = \<lparr>totalFlitsSent = 0, totalTLPsSent = 0, totalPayloadBytes = 0,
     totalPaddingBytes = 0, totalRetransmissions = 0, totalFlitsNaked = 0,
     totalFlitsReceived = 0, totalCrcErrors = 0, totalAcksSent = 0, totalNaksSent = 0,
     totalTLPsReceived = 0, tlpLatency = [], simDurationTicks = 0\<rparr>"

text \<open>The constructor \<open>UcieLink(p)\<close>.\<close>

definition mkLink :: "ucie_params \<Rightarrow> ucie_link" where
  "mkLink p = \<lparr>txPacker = packer_init, linkState = INIT, dataRate = data_rate p,
     numLanes = num_lanes p, physDelay = phys_delay p, creditPool = credit_pool p,
     errorRate = error_rate p, rxFlitCounter = 0, rxBitsReceived = 0, nextErrorAtBits = 0,
     txCredits = credit_pool p, txBlocked = False, rxWaitingForRetry = False,
     tlpBlocked = False, tlpSendQueue = [], txSendQueue = [], retryBuffer = [],
     lastProcessedTimestamp = 0, lastAckedTimestamp = 0, simStartTick = 0, simLastTick = 0,
     retryTimeoutDelay = retry_timeout p, clk = clocked_init, clockPeriod = clk_period p,
     stats = stats_init\<rparr>"

text \<open>The cast of a \<open>double\<close> to \<open>uint64_t\<close>: truncation, undefined when out of range.\<close>

definition to_u64 :: "rat \<Rightarrow> u64 option" where
  "to_u64 x =
     (let z = (if 0 \<le> x then \<lfloor>x\<rfloor> else \<lceil>x\<rceil>) in
      if 0 \<le> z \<and> z < 2 ^ 64 then Some (word_of_int z) else None)"

text \<open>The distance between injected errors, \<open>(uint64_t)((1.0 / errorRate) * 256 * 8)\<close>.\<close>

definition errorGapBits :: "rat \<Rightarrow> u64 option" where
  "errorGapBits er = to_u64 ((1 / er) * 256 * 8)"

text \<open>\<open>init()\<close>; \<open>portsConnected\<close> says that both ports are connected.\<close>

definition init :: "bool \<Rightarrow> ucie_link \<Rightarrow> ucie_link option" where
  "init portsConnected l =
     do { check portsConnected;
          let l1 = l\<lparr>txCredits := creditPool l\<rparr>;
          l2 \<leftarrow> (if errorRate l1 > 0
                 then do { g \<leftarrow> errorGapBits (errorRate l1); Some (l1\<lparr>nextErrorAtBits := g\<rparr>) }
                 else Some l1);
          Some (l2\<lparr>linkState := ACTIVE\<rparr>) }"

section \<open>Sending\<close>

definition drainTxSendQueue :: "link_id \<Rightarrow> sys \<Rightarrow> sys option" where
  "drainTxSendQueue i s =
     (if \<not> scheduled (SendFlit i) s
      then let (t, s1) = link_clockEdge i 1 s in schedule (SendFlit i) t s1
      else Some s)"

text \<open>\<open>drainTlpSendQueue()\<close>: hand the unpacked TLPs to the memory side, in order.\<close>

partial_function (option) drainTlpSendQueue ::
  "(ptr \<Rightarrow> sys \<Rightarrow> (bool \<times> sys) option) \<Rightarrow> link_id \<Rightarrow> sys \<Rightarrow> sys option"
where
  "drainTlpSendQueue sendReq i s =
     (if tlpSendQueue (link s i) \<noteq> [] \<and> \<not> tlpBlocked (link s i)
      then do { r \<leftarrow> sendReq (hd (tlpSendQueue (link s i))) s;
                case r of (ok, s1) \<Rightarrow>
                if ok
                then do { check (tlpSendQueue (link s1 i) \<noteq> []);
                          drainTlpSendQueue sendReq i
                            (upd_link i (\<lambda>l. l\<lparr>tlpSendQueue := tl (tlpSendQueue l)\<rparr>) s1) }
                else Some (upd_link i (\<lambda>l. l\<lparr>tlpBlocked := True\<rparr>) s1) }
      else Some s)"

text \<open>\<open>processPackTlp()\<close>: flush the staging buffer.\<close>

definition processPackTlp :: "link_id \<Rightarrow> sys \<Rightarrow> sys option" where
  "processPackTlp i s =
     do { (r, k) \<leftarrow> forceFlush (curTick s) (txPacker (link s i));
          let s1 = upd_link i (\<lambda>l. l\<lparr>txPacker := k\<rparr>) s;
          case r of None \<Rightarrow> Some s1
          | Some f \<Rightarrow>
            (let (p, s2) = new_obj (FlitObj f) s1 in
             schedule_unless (SendFlit i) (curTick s2)
               (upd_link i (\<lambda>l. l\<lparr>txSendQueue := txSendQueue l @ [p]\<rparr>) s2)) }"

text \<open>The disposable copy of a flit that goes on the wire.\<close>

definition wireClone :: "Tick \<Rightarrow> flit \<Rightarrow> flit option" where
  "wireClone now f =
     do { w \<leftarrow> newFlit now UCIE_PAYLOAD_SIZE_BYTES WriteReq (timestamp f) (flitType f);
          Some (w\<lparr>payloadBytes := payloadBytes f, originalPackets := originalPackets f,
                  isRetransmission := isRetransmission f\<rparr>) }"

text \<open>
  The part of \<open>processSendFlit()\<close> after the peer took the flit: \<open>orig\<close> is the
  pointer read before the call, everything else is read again. First the
  bookkeeping, then the events.
\<close>

definition recordSent :: "link_id \<Rightarrow> ptr \<Rightarrow> flit \<Rightarrow> sys \<Rightarrow> sys" where
  "recordSent i orig f s =
     upd_link i (\<lambda>l. let l1 = l\<lparr>txSendQueue := tl (txSendQueue l),
           retryBuffer := retryBuffer l @ [orig], txCredits := txCredits l - 1,
           simStartTick := (if simStartTick l = 0 then curTick s else simStartTick l),
           simLastTick := curTick s\<rparr> in
         upd_stats (\<lambda>st. st\<lparr>simDurationTicks := simLastTick l1 - simStartTick l1,
           totalFlitsSent := totalFlitsSent st + 1,
           totalPayloadBytes := totalPayloadBytes st + unat (payloadBytes f),
           totalPaddingBytes := totalPaddingBytes st +
             unat (UCIE_PAYLOAD_SIZE_BYTES - payloadBytes f)\<rparr>) l1) s"

definition flitSent :: "link_id \<Rightarrow> ptr \<Rightarrow> sys \<Rightarrow> sys option" where
  "flitSent i orig s =
     do { check (txSendQueue (link s i) \<noteq> []);
          f \<leftarrow> flit_at (heap s) orig;
          let s1 = recordSent i orig f s;
          s2 \<leftarrow> (if txSendQueue (link s1 i) \<noteq> []
                 then schedule_unless (SendFlit i) (curTick s1 + 1) s1 else Some s1);
          schedule_unless (RetryTimeout i) (curTick s2 + retryTimeoutDelay (link s2 i)) s2 }"

definition processSendFlit ::
  "(ptr \<Rightarrow> sys \<Rightarrow> (bool \<times> sys) option) \<Rightarrow> link_id \<Rightarrow> sys \<Rightarrow> sys option"
where
  "processSendFlit sendReq i s =
     (if txSendQueue (link s i) = [] \<or> txBlocked (link s i) then Some s
      else if txCredits (link s i) = 0
      then Some (upd_link i (\<lambda>l. l\<lparr>txBlocked := True\<rparr>) s)
      else
        let orig = hd (txSendQueue (link s i)) in
        do { f \<leftarrow> flit_at (heap s) orig;
             let f1 = (if \<not> isRetransmission f then f\<lparr>timestamp := curTick s\<rparr> else f);
             let s1 = put_flit orig f1 s;
             w \<leftarrow> wireClone (curTick s1) f1;
             let (wire, s2) = new_obj (FlitObj w) s1;
             (ok, s3) \<leftarrow> sendReq wire s2;
             if ok then flitSent i orig s3
             else do { s4 \<leftarrow> delete_obj wire s3;
                       Some (upd_link i (\<lambda>l. l\<lparr>txBlocked := True\<rparr>) s4) } })"


section \<open>Acknowledgements and retry\<close>

definition sendAck ::
  "(ptr \<Rightarrow> sys \<Rightarrow> (bool \<times> sys) option) \<Rightarrow> link_id \<Rightarrow> Tick \<Rightarrow> sys \<Rightarrow> sys option"
where
  "sendAck sendResp i ackedTimestamp s =
     do { f \<leftarrow> newFlit (curTick s) UCIE_FLIT_SIZE_BYTES WriteResp (curTick s) FLIT_LEVEL_ACK;
          let (p, s1) = new_obj (FlitObj (f\<lparr>timestamp := ackedTimestamp\<rparr>)) s;
          (_, s2) \<leftarrow> sendResp p s1;
          Some (upd_link i (upd_stats (\<lambda>st. st\<lparr>totalAcksSent := totalAcksSent st + 1\<rparr>)) s2) }"

definition sendNak ::
  "(ptr \<Rightarrow> sys \<Rightarrow> (bool \<times> sys) option) \<Rightarrow> link_id \<Rightarrow> Tick \<Rightarrow> sys \<Rightarrow> sys option"
where
  "sendNak sendResp i nakTimestamp s =
     do { f \<leftarrow> newFlit (curTick s) UCIE_FLIT_SIZE_BYTES WriteResp (curTick s) FLIT_LEVEL_NAK;
          let (p, s1) = new_obj (FlitObj (f\<lparr>timestamp := nakTimestamp\<rparr>)) s;
          (_, s2) \<leftarrow> sendResp p s1;
          Some (upd_link i (upd_stats (\<lambda>st. st\<lparr>totalNaksSent := totalNaksSent st + 1\<rparr>)) s2) }"

definition sendCreditReturn ::
  "(ptr \<Rightarrow> sys \<Rightarrow> (bool \<times> sys) option) \<Rightarrow> link_id \<Rightarrow> sys \<Rightarrow> sys option"
where
  "sendCreditReturn sendResp i s =
     do { f \<leftarrow> newFlit (curTick s) UCIE_FLIT_SIZE_BYTES WriteResp (curTick s) LINK_MGMT;
          let (p, s1) = new_obj (FlitObj f) s;
          (_, s2) \<leftarrow> sendResp p s1;
          Some s2 }"

text \<open>
  The loops of \<open>processAck\<close> and \<open>processNak\<close> that delete flits from the front
  of the retry buffer as long as their timestamp satisfies the test: the number of
  flits deleted, the buffer that is left and the heap.
\<close>

fun retireFlits ::
  "(Tick \<Rightarrow> bool) \<Rightarrow> ptr list \<Rightarrow> (ptr \<rightharpoonup> obj) \<Rightarrow> (u32 \<times> ptr list \<times> (ptr \<rightharpoonup> obj)) option"
where
  "retireFlits P [] h = Some (0, [], h)"
| "retireFlits P (p # ps) h =
     do { f \<leftarrow> flit_at h p;
          if P (timestamp f)
          then do { (n, rest, h1) \<leftarrow> retireFlits P ps (h(p := None)); Some (n + 1, rest, h1) }
          else Some (0, p # ps, h) }"

definition processAck :: "link_id \<Rightarrow> Tick \<Rightarrow> sys \<Rightarrow> sys option" where
  "processAck i ackedTimestamp s =
     do { (flitsAcked, buf, h) \<leftarrow>
            retireFlits (\<lambda>t. t \<le> ackedTimestamp) (retryBuffer (link s i)) (heap s);
          let s1 = upd_link i (\<lambda>l. l\<lparr>lastAckedTimestamp := ackedTimestamp, retryBuffer := buf,
                txCredits := min (txCredits l + flitsAcked) (creditPool l)\<rparr>) (s\<lparr>heap := h\<rparr>);
          s2 \<leftarrow> (if txBlocked (link s1 i) \<and> txCredits (link s1 i) > 0
                 then drainTxSendQueue i (upd_link i (\<lambda>l. l\<lparr>txBlocked := False\<rparr>) s1)
                 else Some s1);
          s3 \<leftarrow> deschedule_if (RetryTimeout i) s2;
          s4 \<leftarrow> (if retryBuffer (link s3 i) \<noteq> []
                 then do { f \<leftarrow> flit_at (heap s3) (hd (retryBuffer (link s3 i)));
                           schedule (RetryTimeout i)
                             (timestamp f + retryTimeoutDelay (link s3 i)) s3 }
                 else Some s3);
          Some (if retryBuffer (link s4 i) = [] \<and> linkState (link s4 i) = RETRAIN
                then upd_link i (\<lambda>l. l\<lparr>linkState := ACTIVE\<rparr>) s4 else s4) }"

text \<open>The second loop of \<open>processNak\<close>, on the retry buffer from its back.\<close>

fun replayFlits :: "link_id \<Rightarrow> ptr list \<Rightarrow> sys \<Rightarrow> sys option" where
  "replayFlits i [] s = Some s"
| "replayFlits i (p # ps) s =
     do { f \<leftarrow> flit_at (heap s) p;
          replayFlits i ps
            (upd_link i (\<lambda>l. upd_stats (\<lambda>st. st\<lparr>totalRetransmissions := totalRetransmissions st + 1\<rparr>)
                (l\<lparr>txSendQueue := p # txSendQueue l, retryBuffer := butlast (retryBuffer l)\<rparr>))
              (put_flit p (f\<lparr>isRetransmission := True\<rparr>) s)) }"

definition processNak :: "link_id \<Rightarrow> Tick \<Rightarrow> sys \<Rightarrow> sys option" where
  "processNak i nakTimestamp s =
     do { let s1 = upd_link i (upd_stats (\<lambda>st. st\<lparr>totalFlitsNaked := totalFlitsNaked st + 1\<rparr>)) s;
          (_, buf, h) \<leftarrow> retireFlits (\<lambda>t. t < nakTimestamp) (retryBuffer (link s1 i)) (heap s1);
          s2 \<leftarrow> replayFlits i (rev buf) (upd_link i (\<lambda>l. l\<lparr>retryBuffer := buf\<rparr>) (s1\<lparr>heap := h\<rparr>));
          s3 \<leftarrow> deschedule_if (RetryTimeout i) s2;
          drainTxSendQueue i (upd_link i (\<lambda>l. l\<lparr>linkState := RETRAIN\<rparr>) s3) }"

text \<open>The probe that \<open>processRetryTimeout\<close> sends: a clone of the oldest flit.\<close>

definition probeClone :: "Tick \<Rightarrow> flit \<Rightarrow> flit option" where
  "probeClone now f =
     do { w \<leftarrow> newFlit now UCIE_PAYLOAD_SIZE_BYTES WriteReq (timestamp f) (flitType f);
          Some (w\<lparr>payloadBytes := payloadBytes f, originalPackets := originalPackets f,
                  isRetransmission := True\<rparr>) }"

definition processRetryTimeout ::
  "(ptr \<Rightarrow> sys \<Rightarrow> (bool \<times> sys) option) \<Rightarrow> link_id \<Rightarrow> sys \<Rightarrow> sys option"
where
  "processRetryTimeout sendReq i s =
     (if txBlocked (link s i)
      then schedule_unless (RetryTimeout i) (curTick s + retryTimeoutDelay (link s i)) s
      else if retryBuffer (link s i) = [] then Some s
      else
        do { f \<leftarrow> flit_at (heap s) (hd (retryBuffer (link s i)));
             if curTick s \<ge> timestamp f + retryTimeoutDelay (link s i)
             then
               do { w \<leftarrow> probeClone (curTick s) f;
                    let (edge, s1) = link_clockEdge i 8 s;
                    let delay = edge - curTick s1;
                    let (wire, s2) =
                      new_obj (FlitObj (w\<lparr>headerDelay := ucast (ucast (headerDelay w) + delay)\<rparr>)) s1;
                    (ok, s3) \<leftarrow> sendReq wire s2;
                    if ok
                    then
                      let s4 = upd_link i (upd_stats
                            (\<lambda>st. st\<lparr>totalRetransmissions := totalRetransmissions st + 1\<rparr>)) s3
                      in schedule_unless (RetryTimeout i)
                           (curTick s4 + retryTimeoutDelay (link s4 i)) s4
                    else
                      do { s4 \<leftarrow> delete_obj wire s3;
                           let s5 = upd_link i (\<lambda>l. l\<lparr>txBlocked := True\<rparr>) s4;
                           schedule_unless (RetryTimeout i)
                             (curTick s5 + retryTimeoutDelay (link s5 i)) s5 } }
             else schedule_unless (RetryTimeout i)
                    (timestamp f + retryTimeoutDelay (link s i)) s })"

section \<open>Port callbacks\<close>

subsection \<open>UcieTxPort\<close>

definition tx_recvTimingResp ::
  "(ptr \<Rightarrow> sys \<Rightarrow> (bool \<times> sys) option) \<Rightarrow> link_id \<Rightarrow> ptr \<Rightarrow> sys \<Rightarrow> (bool \<times> sys) option"
where
  "tx_recvTimingResp sendResp i p s =
     (case heap s p of
        None \<Rightarrow> None
      | Some (FlitObj f) \<Rightarrow>
          do { s1 \<leftarrow>
                 (case flitType f of
                    FLIT_LEVEL_ACK \<Rightarrow> processAck i (timestamp f) s
                  | FLIT_LEVEL_NAK \<Rightarrow> processNak i (timestamp f) s
                  | LINK_MGMT \<Rightarrow>
                      (let s0 = upd_link i
                           (\<lambda>l. l\<lparr>txCredits := min (txCredits l + 1) (creditPool l)\<rparr>) s in
                       if txBlocked (link s0 i) \<and> txCredits (link s0 i) > 0
                       then drainTxSendQueue i (upd_link i (\<lambda>l. l\<lparr>txBlocked := False\<rparr>) s0)
                       else Some s0)
                  | _ \<Rightarrow> Some s);
               s2 \<leftarrow> delete_obj p s1;
               Some (True, s2) }
      | Some (PktObj _) \<Rightarrow> sendResp p s)"

definition tx_recvReqRetry ::
  "(ptr \<Rightarrow> sys \<Rightarrow> (bool \<times> sys) option) \<Rightarrow> link_id \<Rightarrow> sys \<Rightarrow> sys option"
where
  "tx_recvReqRetry sendReq i s =
     do { s1 \<leftarrow> drainTxSendQueue i (upd_link i (\<lambda>l. l\<lparr>txBlocked := False, tlpBlocked := False\<rparr>) s);
          drainTlpSendQueue sendReq i s1 }"

subsection \<open>UcieRxPort\<close>

text \<open>\<open>tlp->popSenderState()\<close> through a pointer to a packet, which may be a flit.\<close>

definition popSenderState_at :: "ptr \<Rightarrow> sys \<Rightarrow> (SenderState \<times> sys) option" where
  "popSenderState_at p s =
     (case heap s p of
        None \<Rightarrow> None
      | Some (PktObj q) \<Rightarrow> do { (st, q1) \<leftarrow> popSenderState q; Some (st, put_pkt p q1 s) }
      | Some (FlitObj f) \<Rightarrow> do { (st, f1) \<leftarrow> popSenderState f; Some (st, put_flit p f1 s) })"

text \<open>The loop of \<open>recvTimingReq\<close> over the TLPs of a flit.\<close>

fun unpackTlps :: "link_id \<Rightarrow> ptr list \<Rightarrow> sys \<Rightarrow> sys option" where
  "unpackTlps i [] s = Some s"
| "unpackTlps i (tlp # tlps) s =
     do { (timerState, s1) \<leftarrow> popSenderState_at tlp s;
          unpackTlps i tlps
            (upd_link i (\<lambda>l. upd_stats (\<lambda>st.
                 st\<lparr>tlpLatency := tlpLatency st @
                      (case timerState of UcieTimerState entry \<Rightarrow> [curTick s1 - entry]
                       | OtherSenderState _ \<Rightarrow> []),
                   totalTLPsReceived := totalTLPsReceived st + 1\<rparr>)
                 (l\<lparr>tlpSendQueue := tlpSendQueue l @ [tlp]\<rparr>)) s1) }"

text \<open>\<open>recvTimingReq(pkt)\<close> when \<open>pkt\<close> is a flit; the receiver always accepts.\<close>

definition recvFlit ::
  "(ptr \<Rightarrow> sys \<Rightarrow> (bool \<times> sys) option) \<Rightarrow> (ptr \<Rightarrow> sys \<Rightarrow> (bool \<times> sys) option) \<Rightarrow>
   link_id \<Rightarrow> ptr \<Rightarrow> flit \<Rightarrow> sys \<Rightarrow> (bool \<times> sys) option"
where
  "recvFlit sendReq sendResp i p f s =
     do { let s1 = upd_link i (\<lambda>l. upd_stats
                (\<lambda>st. st\<lparr>totalFlitsReceived := totalFlitsReceived st + 1\<rparr>)
                (l\<lparr>rxBitsReceived := rxBitsReceived l + ucast (UCIE_FLIT_SIZE_BYTES * 8)\<rparr>)) s;
          let l1 = link s1 i;
          let crcError = (errorRate l1 > 0 \<and> \<not> isRetransmission f \<and> \<not> rxWaitingForRetry l1 \<and>
                          rxBitsReceived l1 \<ge> nextErrorAtBits l1);
          if crcError
          then
            do { g \<leftarrow> errorGapBits (errorRate l1);
                 let s2 = upd_link i (\<lambda>l. upd_stats
                       (\<lambda>st. st\<lparr>totalCrcErrors := totalCrcErrors st + 1\<rparr>)
                       (l\<lparr>nextErrorAtBits := nextErrorAtBits l + g, rxWaitingForRetry := True\<rparr>)) s1;
                 s3 \<leftarrow> sendNak sendResp i (timestamp f) s2;
                 s4 \<leftarrow> delete_obj p s3;
                 Some (True, s4) }
          else if rxWaitingForRetry l1 \<and> \<not> isRetransmission f
          then do { s2 \<leftarrow> delete_obj p s1; Some (True, s2) }
          else
            let s2 = upd_link i (\<lambda>l. l\<lparr>rxWaitingForRetry := False\<rparr>) s1; l2 = link s2 i in
            if rxFlitCounter l2 > 0 \<and> timestamp f \<le> lastProcessedTimestamp l2
            then
              do { s3 \<leftarrow> sendAck sendResp i (lastProcessedTimestamp l2) s2;
                   s4 \<leftarrow> delete_obj p s3;
                   Some (True, s4) }
            else
              do { let s3 = upd_link i (\<lambda>l. l\<lparr>lastProcessedTimestamp := timestamp f,
                         rxFlitCounter := rxFlitCounter l + 1\<rparr>) s2;
                   s4 \<leftarrow> unpackTlps i (processReceivedFlit f) s3;
                   s5 \<leftarrow> drainTlpSendQueue sendReq i s4;
                   f1 \<leftarrow> flit_at (heap s5) p;
                   s6 \<leftarrow> sendAck sendResp i (timestamp f1) s5;
                   s7 \<leftarrow> delete_obj p s6;
                   Some (True, s7) } }"

text \<open>
  The latency model of \<open>recvTimingReq\<close>: the delay in ticks (picoseconds) before
  a TLP of \<open>tlpSize\<close> bytes is sent. A division by zero gives an infinity, whose
  cast to \<open>Tick\<close> is undefined.
\<close>

definition startDelayTicks :: "rat \<Rightarrow> int \<Rightarrow> u32 \<Rightarrow> Tick option" where
  "startDelayTicks rate lanes tlpSize =
     do { check (rate \<noteq> 0 \<and> lanes \<noteq> 0);
          let BW_Gbps = rate * of_int lanes;
          let transmission_ns = (of_nat (unat tlpSize) * 8) / BW_Gbps;
          let f_link_GHz = rate / of_int lanes;
          let accumulation_ns = 16 - (1 / (2 * f_link_GHz));
          let rtl_penalty_ns = 5 * (1 / 2);
          to_u64 ((transmission_ns + accumulation_ns + rtl_penalty_ns) * 1000) }"

text \<open>The loop that cuts full flits from the staging buffer.\<close>

partial_function (option) packFullFlits :: "link_id \<Rightarrow> Tick \<Rightarrow> sys \<Rightarrow> sys option" where
  "packFullFlits i delay s =
     (if stagedBytes (txPacker (link s i)) \<ge> UCIE_PAYLOAD_SIZE_BYTES
      then do { r \<leftarrow> assembleFlit (curTick s) False (txPacker (link s i));
                case r of (None, k) \<Rightarrow> None
                | (Some f, k) \<Rightarrow>
                  (case new_obj (FlitObj f) s of (p, s1) \<Rightarrow>
                   do { s2 \<leftarrow> schedule_unless (SendFlit i) (curTick s1 + delay)
                          (upd_link i (\<lambda>l. l\<lparr>txPacker := k, txSendQueue := txSendQueue l @ [p]\<rparr>) s1);
                        packFullFlits i delay s2 }) }
      else Some s)"

text \<open>\<open>recvTimingReq(pkt)\<close> when \<open>pkt\<close> is not a flit but a TLP.\<close>

definition recvTlp :: "link_id \<Rightarrow> ptr \<Rightarrow> packet \<Rightarrow> sys \<Rightarrow> (bool \<times> sys) option" where
  "recvTlp i p q s =
     (if linkState (link s i) = RETRAIN then Some (False, s)
      else
        do { let s1 = upd_link i (upd_stats (\<lambda>st. st\<lparr>totalTLPsSent := totalTLPsSent st + 1\<rparr>))
                        (put_pkt p (pushSenderState (UcieTimerState (curTick s)) q) s);
             sz \<leftarrow> getSize q;
             delay \<leftarrow> startDelayTicks (dataRate (link s1 i)) (numLanes (link s1 i))
                        (sz + TLP_HEADER_BYTES);
             let s2 = upd_link i (\<lambda>l. l\<lparr>txPacker := processIncomingTLP p sz (txPacker l)\<rparr>) s1;
             s3 \<leftarrow> packFullFlits i delay s2;
             s4 \<leftarrow> (if \<not> scheduled (PackTlp i) s3 \<and> stagedBytes (txPacker (link s3 i)) > 0
                    then schedule (PackTlp i) (curTick s3 + delay) s3 else Some s3);
             Some (True, s4) })"

definition rx_recvTimingReq ::
  "(ptr \<Rightarrow> sys \<Rightarrow> (bool \<times> sys) option) \<Rightarrow> (ptr \<Rightarrow> sys \<Rightarrow> (bool \<times> sys) option) \<Rightarrow>
   link_id \<Rightarrow> ptr \<Rightarrow> sys \<Rightarrow> (bool \<times> sys) option"
where
  "rx_recvTimingReq sendReq sendResp i p s =
     (case heap s p of
        None \<Rightarrow> None
      | Some (FlitObj f) \<Rightarrow> recvFlit sendReq sendResp i p f s
      | Some (PktObj q) \<Rightarrow> recvTlp i p q s)"

definition rx_recvRespRetry ::
  "(ptr \<Rightarrow> sys \<Rightarrow> (bool \<times> sys) option) \<Rightarrow> link_id \<Rightarrow> sys \<Rightarrow> sys option"
where
  "rx_recvRespRetry sendReq i s =
     drainTlpSendQueue sendReq i (upd_link i (\<lambda>l. l\<lparr>tlpBlocked := False\<rparr>) s)"

subsection \<open>Statistics formulas\<close>

text \<open>The derived statistics; \<open>None\<close> when the quotient is not a number.\<close>

definition ratio :: "rat \<Rightarrow> rat \<Rightarrow> rat option" where
  "ratio x y = (if y = 0 then None else Some (x / y))"

definition payloadEfficiency :: "ucie_stats \<Rightarrow> rat option" where
  "payloadEfficiency st =
     ratio (of_nat (totalPayloadBytes st))
       (of_nat (totalFlitsSent st) * of_nat (unat UCIE_FLIT_SIZE_BYTES))"

definition retransmissionRate :: "ucie_stats \<Rightarrow> rat option" where
  "retransmissionRate st =
     ratio (of_nat (totalRetransmissions st)) (of_nat (totalFlitsSent st))"

definition crcErrorRate :: "ucie_stats \<Rightarrow> rat option" where
  "crcErrorRate st = ratio (of_nat (totalCrcErrors st)) (of_nat (totalFlitsReceived st))"

definition throughputGbps :: "ucie_stats \<Rightarrow> rat option" where
  "throughputGbps st =
     ratio (of_nat (totalPayloadBytes st) * 8000) (of_nat (unat (simDurationTicks st)))"

section \<open>Facts\<close>

text \<open>How the parts of the state read after an update.\<close>

lemma upd_link_sel [simp]:
  "link (upd_link i f s) j = (if j = i then f (link s i) else link s j)"
  "heap (upd_link i f s) = heap s" "nextPtr (upd_link i f s) = nextPtr s"
  "eventq (upd_link i f s) = eventq s" "curTick (upd_link i f s) = curTick s"
  "env (upd_link i f s) = env s"
  by (simp_all add: upd_link_def)

lemma upd_stats_sel [simp]:
  "txPacker (upd_stats g l) = txPacker l" "linkState (upd_stats g l) = linkState l"
  "dataRate (upd_stats g l) = dataRate l" "numLanes (upd_stats g l) = numLanes l"
  "creditPool (upd_stats g l) = creditPool l" "errorRate (upd_stats g l) = errorRate l"
  "rxFlitCounter (upd_stats g l) = rxFlitCounter l"
  "rxBitsReceived (upd_stats g l) = rxBitsReceived l"
  "nextErrorAtBits (upd_stats g l) = nextErrorAtBits l" "txCredits (upd_stats g l) = txCredits l"
  "txBlocked (upd_stats g l) = txBlocked l"
  "rxWaitingForRetry (upd_stats g l) = rxWaitingForRetry l"
  "tlpBlocked (upd_stats g l) = tlpBlocked l" "tlpSendQueue (upd_stats g l) = tlpSendQueue l"
  "txSendQueue (upd_stats g l) = txSendQueue l" "retryBuffer (upd_stats g l) = retryBuffer l"
  "lastProcessedTimestamp (upd_stats g l) = lastProcessedTimestamp l"
  "lastAckedTimestamp (upd_stats g l) = lastAckedTimestamp l"
  "simStartTick (upd_stats g l) = simStartTick l" "simLastTick (upd_stats g l) = simLastTick l"
  "retryTimeoutDelay (upd_stats g l) = retryTimeoutDelay l" "clk (upd_stats g l) = clk l"
  "clockPeriod (upd_stats g l) = clockPeriod l" "stats (upd_stats g l) = g (stats l)"
  by (simp_all add: upd_stats_def)

lemma put_flit_sel [simp]:
  "heap (put_flit p f s) = (heap s)(p \<mapsto> FlitObj f)" "nextPtr (put_flit p f s) = nextPtr s"
  "eventq (put_flit p f s) = eventq s" "curTick (put_flit p f s) = curTick s"
  "link (put_flit p f s) = link s" "env (put_flit p f s) = env s"
  by (simp_all add: put_flit_def)

lemma put_pkt_sel [simp]:
  "heap (put_pkt p q s) = (heap s)(p \<mapsto> PktObj q)" "nextPtr (put_pkt p q s) = nextPtr s"
  "eventq (put_pkt p q s) = eventq s" "curTick (put_pkt p q s) = curTick s"
  "link (put_pkt p q s) = link s" "env (put_pkt p q s) = env s"
  by (simp_all add: put_pkt_def)

lemma at_simps [simp]:
  "h p = Some (FlitObj f) \<Longrightarrow> flit_at h p = Some f"
  "h p = Some (PktObj q) \<Longrightarrow> pkt_at h p = Some q"
  "h p = Some (FlitObj f) \<Longrightarrow> cmd_at h p = Some (cmd f)"
  "h p = Some (PktObj q) \<Longrightarrow> cmd_at h p = Some (cmd q)"
  by (simp_all add: flit_at_def pkt_at_def cmd_at_def)

lemma flit_at_eq_Some: "flit_at h p = Some f \<longleftrightarrow> h p = Some (FlitObj f)"
  by (auto simp: flit_at_def split: option.splits obj.splits)

lemma recordSent_sel [simp]:
  "heap (recordSent i orig f s) = heap s" "nextPtr (recordSent i orig f s) = nextPtr s"
  "eventq (recordSent i orig f s) = eventq s" "curTick (recordSent i orig f s) = curTick s"
  "env (recordSent i orig f s) = env s" "j \<noteq> i \<Longrightarrow> link (recordSent i orig f s) j = link s j"
  "txSendQueue (link (recordSent i orig f s) i) = tl (txSendQueue (link s i))"
  "retryBuffer (link (recordSent i orig f s) i) = retryBuffer (link s i) @ [orig]"
  "txCredits (link (recordSent i orig f s) i) = txCredits (link s i) - 1"
  "txPacker (link (recordSent i orig f s) i) = txPacker (link s i)"
  "txBlocked (link (recordSent i orig f s) i) = txBlocked (link s i)"
  "linkState (link (recordSent i orig f s) i) = linkState (link s i)"
  "tlpSendQueue (link (recordSent i orig f s) i) = tlpSendQueue (link s i)"
  "creditPool (link (recordSent i orig f s) i) = creditPool (link s i)"
  "retryTimeoutDelay (link (recordSent i orig f s) i) = retryTimeoutDelay (link s i)"
  "clk (link (recordSent i orig f s) i) = clk (link s i)"
  "clockPeriod (link (recordSent i orig f s) i) = clockPeriod (link s i)"
  "scheduled ev (recordSent i orig f s) = scheduled ev s"
  by (simp_all add: recordSent_def Let_def scheduled_def)

text \<open>The clones that go on the wire always exist.\<close>

lemma wireClone_eq:
  obtains w where "wireClone now f = Some w" and "timestamp w = timestamp f"
    and "originalPackets w = originalPackets f" and "isRetransmission w = isRetransmission f"
    and "cmd w = WriteReq" and "payloadBytes w = payloadBytes f"
proof -
  obtain w where "newFlit now UCIE_PAYLOAD_SIZE_BYTES WriteReq (timestamp f) (flitType f) = Some w"
    and "timestamp w = timestamp f" and "cmd w = WriteReq"
    using newFlit_eq by blast
  then show ?thesis by (intro that [of "w\<lparr>payloadBytes := payloadBytes f,
      originalPackets := originalPackets f, isRetransmission := isRetransmission f\<rparr>"])
      (simp_all add: wireClone_def)
qed

lemma probeClone_eq:
  obtains w where "probeClone now f = Some w" and "timestamp w = timestamp f"
    and "originalPackets w = originalPackets f" and "isRetransmission w"
    and "cmd w = WriteReq"
proof -
  obtain w where "newFlit now UCIE_PAYLOAD_SIZE_BYTES WriteReq (timestamp f) (flitType f) = Some w"
    and "timestamp w = timestamp f" and "cmd w = WriteReq"
    using newFlit_eq by blast
  then show ?thesis by (intro that [of "w\<lparr>payloadBytes := payloadBytes f,
      originalPackets := originalPackets f, isRetransmission := True\<rparr>"])
      (simp_all add: probeClone_def)
qed

text \<open>\<open>processAck\<close> and \<open>processNak\<close> delete exactly the flits at the front that
  pass the test.\<close>

lemma retireFlits_eq:
  assumes "\<forall>p \<in> set ps. \<exists>f. h p = Some (FlitObj f)" and "distinct ps"
  shows "retireFlits P ps h =
    (let old = takeWhile (\<lambda>p. P (timestamp (the (flit_at h p)))) ps in
     Some (of_nat (length old), dropWhile (\<lambda>p. P (timestamp (the (flit_at h p)))) ps,
           \<lambda>p. if p \<in> set old then None else h p))"
  using assms
proof (induction ps arbitrary: h)
  case (Cons p ps)
  then obtain f where f: "h p = Some (FlitObj f)" by auto
  show ?case
  proof (cases "P (timestamp f)")
    case True
    let ?h = "h(p := None)"
    have same: "flit_at ?h x = flit_at h x" if "x \<in> set ps" for x
      using that Cons.prems by (auto simp: flit_at_def)
    have "takeWhile (\<lambda>x. P (timestamp (the (flit_at ?h x)))) ps =
            takeWhile (\<lambda>x. P (timestamp (the (flit_at h x)))) ps"
      and "dropWhile (\<lambda>x. P (timestamp (the (flit_at ?h x)))) ps =
            dropWhile (\<lambda>x. P (timestamp (the (flit_at h x)))) ps"
      by (auto intro: takeWhile_cong dropWhile_cong simp: same)
    moreover have "retireFlits P ps ?h =
      (let old = takeWhile (\<lambda>p. P (timestamp (the (flit_at ?h p)))) ps in
       Some (of_nat (length old), dropWhile (\<lambda>p. P (timestamp (the (flit_at ?h p)))) ps,
             \<lambda>p. if p \<in> set old then None else ?h p))"
      using Cons.prems by (intro Cons.IH) auto
    ultimately show ?thesis using f True by (auto simp: Let_def fun_eq_iff)
  next
    case False
    then show ?thesis using f by simp
  qed
qed simp

end
