(* ===== verification/UcieSystem.thy ===== *)
theory UcieSystem
  imports UcieLink
begin

text \<open>
  Two links back to back, as the experiments connect them: the CPU side sends TLPs
  to \<open>Link0\<close>, whose \<open>tx_port\<close> is bound to the \<open>rx_port\<close> of \<open>Link1\<close>,
  whose \<open>tx_port\<close> leads to the memory. A port call runs the peer's handler
  before it returns (\<open>mem/protocol/timing.cc\<close>), so an acknowledgement reaches
  \<open>Link0\<close> while it is still inside \<open>processSendFlit\<close>.

  An action of the system is one event of the queue or one call of the environment.
  The second half of the theory says in closed form what the handlers compute.
\<close>

section \<open>The composed system\<close>

text \<open>\<open>TimingRequestProtocol::sendReq\<close> and \<open>TimingResponseProtocol::sendResp\<close>:
  the check of the packet's direction, then the peer's handler.\<close>

definition sendReq ::
  "(ptr \<Rightarrow> sys \<Rightarrow> (bool \<times> sys) option) \<Rightarrow> ptr \<Rightarrow> sys \<Rightarrow> (bool \<times> sys) option"
where
  "sendReq recvTimingReq p s =
     do { c \<leftarrow> cmd_at (heap s) p; check (isRequest c); recvTimingReq p s }"

definition sendResp ::
  "(ptr \<Rightarrow> sys \<Rightarrow> (bool \<times> sys) option) \<Rightarrow> ptr \<Rightarrow> sys \<Rightarrow> (bool \<times> sys) option"
where
  "sendResp recvTimingResp p s =
     do { c \<leftarrow> cmd_at (heap s) p; check (isResponse c); recvTimingResp p s }"

text \<open>The environment on the outer ports.\<close>

definition mem_recvTimingReq :: "ptr \<Rightarrow> sys \<Rightarrow> (bool \<times> sys) option" where
  "mem_recvTimingReq p s =
     (if memRoom (env s) = 0 then Some (False, s)
      else Some (True, s\<lparr>env := (env s)\<lparr>memRoom := memRoom (env s) - 1,
                                         memTaken := memTaken (env s) @ [p]\<rparr>\<rparr>))"

definition cpu_recvTimingResp :: "ptr \<Rightarrow> sys \<Rightarrow> (bool \<times> sys) option" where
  "cpu_recvTimingResp p s =
     (if cpuRoom (env s) = 0 then Some (False, s)
      else Some (True, s\<lparr>env := (env s)\<lparr>cpuRoom := cpuRoom (env s) - 1,
                                         cpuTaken := cpuTaken (env s) @ [p]\<rparr>\<rparr>))"

text \<open>The two ports of each link, bound as in the experiments.\<close>

fun rx_sendTimingResp :: "link_id \<Rightarrow> ptr \<Rightarrow> sys \<Rightarrow> (bool \<times> sys) option" where
  "rx_sendTimingResp Link0 = sendResp cpu_recvTimingResp"
| "rx_sendTimingResp Link1 = sendResp (tx_recvTimingResp (sendResp cpu_recvTimingResp) Link0)"

fun tx_sendTimingReq :: "link_id \<Rightarrow> ptr \<Rightarrow> sys \<Rightarrow> (bool \<times> sys) option" where
  "tx_sendTimingReq Link1 = sendReq mem_recvTimingReq"
| "tx_sendTimingReq Link0 =
     sendReq (rx_recvTimingReq (sendReq mem_recvTimingReq) (rx_sendTimingResp Link1) Link1)"

text \<open>Serving the first event of the queue (\<open>EventQueue::serviceOne\<close>).\<close>

fun process :: "link_event \<Rightarrow> sys \<Rightarrow> sys option" where
  "process (PackTlp i) s = processPackTlp i s"
| "process (SendFlit i) s = processSendFlit (tx_sendTimingReq i) i s"
| "process (RetryTimeout i) s = processRetryTimeout (tx_sendTimingReq i) i s"

fun serve_head :: "link_event evq \<Rightarrow> sys \<Rightarrow> sys option" where
  "serve_head [] s = None"
| "serve_head ((k, ev) # q) s = process ev (s\<lparr>eventq := q, curTick := fst k\<rparr>)"

text \<open>
  The actions: serve an event; time passes for the rest of the machine; the CPU sends
  a TLP; the memory answers a TLP, makes room, asks to retry; the CPU makes room, asks
  to retry a response, frees a packet it got back.
\<close>

datatype action = Serve | Advance Tick | CpuReq packet | MemResp ptr | MemGrant nat | MemRetry
  | CpuGrant nat | CpuRespRetry | CpuFree ptr

fun act :: "action \<Rightarrow> sys \<Rightarrow> sys option" where
  "act Serve s = serve_head (eventq s) s"
| "act (Advance t) s = Some (s\<lparr>curTick := t\<rparr>)"
| "act (CpuReq q) s =
     (let (p, s1) = new_obj (PktObj q) s;
          s2 = s1\<lparr>env := (env s1)\<lparr>cpuSent := cpuSent (env s1) @ [p]\<rparr>\<rparr> in
      do { (ok, s3) \<leftarrow> sendReq (rx_recvTimingReq (tx_sendTimingReq Link0)
                        (rx_sendTimingResp Link0) Link0) p s2;
           Some (if ok then s3 else s) })"
| "act (MemResp p) s =
     do { q \<leftarrow> pkt_at (heap s) p;
          q1 \<leftarrow> makeResponse q;
          (ok, s1) \<leftarrow> sendResp (tx_recvTimingResp (rx_sendTimingResp Link1) Link1) p
                        (put_pkt p q1 s);
          Some s1 }"
| "act (MemGrant n) s = Some (s\<lparr>env := (env s)\<lparr>memRoom := n\<rparr>\<rparr>)"
| "act MemRetry s = tx_recvReqRetry (tx_sendTimingReq Link1) Link1 s"
| "act (CpuGrant n) s = Some (s\<lparr>env := (env s)\<lparr>cpuRoom := n\<rparr>\<rparr>)"
| "act CpuRespRetry s = rx_recvRespRetry (tx_sendTimingReq Link0) Link0 s"
| "act (CpuFree p) s = delete_obj p s"

text \<open>The initial state: two constructed and initialised links.\<close>

definition sys_init :: "ucie_params \<Rightarrow> ucie_params \<Rightarrow> sys option" where
  "sys_init p0 p1 =
     do { l0 \<leftarrow> init True (mkLink p0);
          l1 \<leftarrow> init True (mkLink p1);
          Some \<lparr>heap = Map.empty, nextPtr = 0, eventq = [], curTick = 0,
                link = (\<lambda>i. case i of Link0 \<Rightarrow> l0 | Link1 \<Rightarrow> l1),
                env = \<lparr>memRoom = 0, memTaken = [], cpuRoom = 0, cpuTaken = [], cpuSent = []\<rparr>\<rparr> }"

declare rx_sendTimingResp.simps [simp del] tx_sendTimingReq.simps [simp del]

section \<open>What the handlers compute\<close>

text \<open>A TLP on its way: a live request; before it is unpacked, with its timer on top of
  the stack of sender states.\<close>

definition live_req :: "(ptr \<rightharpoonup> obj) \<Rightarrow> ptr \<Rightarrow> bool" where
  "live_req h p \<longleftrightarrow> (\<exists>q. h p = Some (PktObj q) \<and> isRequest (cmd q))"

definition timed :: "(ptr \<rightharpoonup> obj) \<Rightarrow> ptr \<Rightarrow> bool" where
  "timed h p \<longleftrightarrow> (\<exists>q t rest. h p = Some (PktObj q) \<and> isRequest (cmd q) \<and>
     senderState q = UcieTimerState t # rest)"

lemma timed_live: "timed h p \<Longrightarrow> live_req h p"
  by (auto simp: timed_def live_req_def)

lemma live_req_eq: "h' p = h p \<Longrightarrow> live_req h' p = live_req h p"
  by (simp add: live_req_def)

lemma timed_eq: "h' p = h p \<Longrightarrow> timed h' p = timed h p"
  by (simp add: timed_def)

subsection \<open>Handing TLPs to the memory\<close>

definition drained :: "link_id \<Rightarrow> sys \<Rightarrow> sys" where
  "drained i s =
     (if tlpBlocked (link s i) then s
      else let n = memRoom (env s); q = tlpSendQueue (link s i) in
        upd_link i (\<lambda>l. l\<lparr>tlpSendQueue := drop n q, tlpBlocked := n < length q\<rparr>)
          (s\<lparr>env := (env s)\<lparr>memRoom := n - length q, memTaken := memTaken (env s) @ take n q\<rparr>\<rparr>))"

lemma sendReq_mem:
  "live_req (heap s) p \<Longrightarrow> sendReq mem_recvTimingReq p s = mem_recvTimingReq p s"
  by (auto simp: sendReq_def live_req_def)

lemma drainTlpSendQueue_mem:
  assumes "\<forall>p \<in> set (tlpSendQueue (link s i)). live_req (heap s) p"
  shows "drainTlpSendQueue (sendReq mem_recvTimingReq) i s = Some (drained i s)"
  using assms
proof (induction "tlpSendQueue (link s i)" arbitrary: s)
  case Nil
  then show ?case
    by (cases s) (auto simp: drainTlpSendQueue.simps drained_def upd_link_def fun_eq_iff)
next
  case (Cons p ps)
  note queue = Cons.hyps(2) [symmetric]
  have live: "live_req (heap s) p" using Cons.prems queue by simp
  show ?case
  proof (cases "tlpBlocked (link s i)")
    case True
    then show ?thesis by (simp add: drainTlpSendQueue.simps drained_def)
  next
    case open_port: False
    show ?thesis
    proof (cases "memRoom (env s)")
      case 0
      then show ?thesis using queue open_port live
        by (simp add: drainTlpSendQueue.simps [of _ _ s] sendReq_mem mem_recvTimingReq_def
            drained_def upd_link_def fun_eq_iff)
    next
      case (Suc n)
      define s1 where "s1 = upd_link i (\<lambda>l. l\<lparr>tlpSendQueue := tl (tlpSendQueue l)\<rparr>)
        (s\<lparr>env := (env s)\<lparr>memRoom := n, memTaken := memTaken (env s) @ [p]\<rparr>\<rparr>)"
      have "drainTlpSendQueue (sendReq mem_recvTimingReq) i s =
            drainTlpSendQueue (sendReq mem_recvTimingReq) i s1"
        using queue open_port Suc live
        by (simp add: drainTlpSendQueue.simps [of _ _ s] sendReq_mem mem_recvTimingReq_def s1_def)
      also have "\<dots> = Some (drained i s1)"
        using Cons.prems queue by (intro Cons.hyps(1)) (auto simp: s1_def)
      also have "drained i s1 = drained i s"
        using queue open_port Suc by (simp add: drained_def s1_def upd_link_def)
      finally show ?thesis .
    qed
  qed
qed

text \<open>Draining moves TLPs from the queue to the memory and keeps their order.\<close>

lemma drained_stream:
  obtains m where "memTaken (env (drained i s)) = memTaken (env s) @ m"
    and "m @ tlpSendQueue (link (drained i s) i) = tlpSendQueue (link s i)"
  by (rule that [of "if tlpBlocked (link s i) then []
        else take (memRoom (env s)) (tlpSendQueue (link s i))"])
    (simp_all add: drained_def Let_def)

subsection \<open>Unpacking a flit\<close>

text \<open>The tick at which the TLP entered the link.\<close>

definition entry_at :: "(ptr \<rightharpoonup> obj) \<Rightarrow> ptr \<Rightarrow> Tick" where
  "entry_at h p =
     (case h p of Some (PktObj q) \<Rightarrow>
        (case senderState q of UcieTimerState t # _ \<Rightarrow> t | _ \<Rightarrow> 0) | _ \<Rightarrow> 0)"

definition received :: "sys \<Rightarrow> ptr list \<Rightarrow> ucie_stats \<Rightarrow> ucie_stats" where
  "received s ps st =
     st\<lparr>tlpLatency := tlpLatency st @ map (\<lambda>p. curTick s - entry_at (heap s) p) ps,
       totalTLPsReceived := totalTLPsReceived st + length ps\<rparr>"

lemma unpackTlps_timed:
  assumes "\<forall>p \<in> set ps. timed (heap s) p" and "distinct ps"
  obtains h where
    "unpackTlps i ps s = Some (upd_link i (\<lambda>l. upd_stats (received s ps)
       (l\<lparr>tlpSendQueue := tlpSendQueue l @ ps\<rparr>)) (s\<lparr>heap := h\<rparr>))"
    and "\<And>p. p \<notin> set ps \<Longrightarrow> h p = heap s p" and "\<And>p. p \<in> set ps \<Longrightarrow> live_req h p"
proof -
  have "\<exists>h. unpackTlps i ps s = Some (upd_link i (\<lambda>l. upd_stats (received s ps)
       (l\<lparr>tlpSendQueue := tlpSendQueue l @ ps\<rparr>)) (s\<lparr>heap := h\<rparr>)) \<and>
     (\<forall>p. p \<notin> set ps \<longrightarrow> h p = heap s p) \<and> (\<forall>p \<in> set ps. live_req h p)"
    using assms
  proof (induction ps arbitrary: s)
    case Nil
    have "upd_link i (upd_stats (received s [])) s = s"
      by (simp add: upd_link_def upd_stats_def received_def)
    then show ?case by (intro exI [of _ "heap s"]) simp
  next
    case (Cons p ps)
    then obtain q t rest where q: "heap s p = Some (PktObj q)" "isRequest (cmd q)"
      "senderState q = UcieTimerState t # rest"
      by (auto simp: timed_def)
    define s1 where "s1 = upd_link i (\<lambda>l. upd_stats (\<lambda>st. st\<lparr>tlpLatency := tlpLatency st @
          [curTick s - t], totalTLPsReceived := totalTLPsReceived st + 1\<rparr>)
        (l\<lparr>tlpSendQueue := tlpSendQueue l @ [p]\<rparr>)) (put_pkt p (q\<lparr>senderState := rest\<rparr>) s)"
    have step: "unpackTlps i (p # ps) s = unpackTlps i ps s1"
      using q by (simp add: popSenderState_at_def popSenderState_def s1_def)
    have away: "heap s1 x = heap s x" if "x \<noteq> p" for x using that by (simp add: s1_def)
    have ne: "p \<notin> set ps" using Cons.prems by simp
    have "\<forall>x \<in> set ps. timed (heap s1) x"
      using Cons.prems ne away by (metis list.set_intros(2) timed_eq)
    from Cons.IH [OF this] obtain h where h:
      "unpackTlps i ps s1 = Some (upd_link i (\<lambda>l. upd_stats (received s1 ps)
         (l\<lparr>tlpSendQueue := tlpSendQueue l @ ps\<rparr>)) (s1\<lparr>heap := h\<rparr>))"
      "\<forall>x. x \<notin> set ps \<longrightarrow> h x = heap s1 x" "\<forall>x \<in> set ps. live_req h x"
      using Cons.prems by auto
    have "live_req h p" using h(2) ne q by (simp add: live_req_def s1_def)
    moreover have "upd_link i (\<lambda>l. upd_stats (received s1 ps)
         (l\<lparr>tlpSendQueue := tlpSendQueue l @ ps\<rparr>)) (s1\<lparr>heap := h\<rparr>) =
       upd_link i (\<lambda>l. upd_stats (received s (p # ps))
         (l\<lparr>tlpSendQueue := tlpSendQueue l @ p # ps\<rparr>)) (s\<lparr>heap := h\<rparr>)"
    proof -
      have "map (\<lambda>x. curTick s - entry_at (heap s1) x) ps =
            map (\<lambda>x. curTick s - entry_at (heap s) x) ps"
        using ne away by (intro map_cong refl) (metis entry_at_def)
      moreover have "entry_at (heap s) p = t" using q by (simp add: entry_at_def)
      ultimately show ?thesis
        by (simp add: s1_def upd_link_def upd_stats_def received_def put_pkt_def fun_upd_def
            fun_eq_iff)
    qed
    ultimately show ?case using step h away by (intro exI [of _ h]) auto
  qed
  then show ?thesis using that by blast
qed

subsection \<open>Acknowledging everything\<close>

text \<open>The state after an acknowledgement that covers the whole retry buffer.\<close>

definition acked :: "link_id \<Rightarrow> Tick \<Rightarrow> sys \<Rightarrow> sys" where
  "acked i t s =
     upd_link i (\<lambda>l. l\<lparr>lastAckedTimestamp := t, retryBuffer := [],
         txCredits := min (txCredits l + of_nat (length (retryBuffer l))) (creditPool l),
         linkState := (if linkState l = RETRAIN then ACTIVE else linkState l)\<rparr>)
       (s\<lparr>heap := heap s |` (- set (retryBuffer (link s i))),
         eventq := q_remove (RetryTimeout i) (eventq s)\<rparr>)"

lemma acked_sel [simp]:
  "heap (acked i t s) = heap s |` (- set (retryBuffer (link s i)))"
  "nextPtr (acked i t s) = nextPtr s" "curTick (acked i t s) = curTick s"
  "eventq (acked i t s) = q_remove (RetryTimeout i) (eventq s)" "env (acked i t s) = env s"
  "j \<noteq> i \<Longrightarrow> link (acked i t s) j = link s j"
  by (simp_all add: acked_def)

lemma q_remove_nonmember: "\<not> q_member e q \<Longrightarrow> q_remove e q = q"
  by (auto simp: q_remove_def q_member_def filter_id_conv)

lemma deschedule_if_eq: "deschedule_if ev s = Some (s\<lparr>eventq := q_remove ev (eventq s)\<rparr>)"
  by (simp add: deschedule_if_def deschedule_def scheduled_def q_remove_nonmember)

text \<open>The flits of the retry buffer are alive and not younger than \<open>t\<close>.\<close>

definition all_covered :: "link_id \<Rightarrow> Tick \<Rightarrow> sys \<Rightarrow> bool" where
  "all_covered i t s \<longleftrightarrow> distinct (retryBuffer (link s i)) \<and>
     (\<forall>p \<in> set (retryBuffer (link s i)). \<exists>f. heap s p = Some (FlitObj f) \<and> timestamp f \<le> t)"

lemma processAck_all:
  assumes "all_covered i t s" and "\<not> txBlocked (link s i)"
  shows "processAck i t s = Some (acked i t s)"
proof -
  let ?rb = "retryBuffer (link s i)"
  have alive: "\<forall>p \<in> set ?rb. \<exists>f. heap s p = Some (FlitObj f)" "distinct ?rb"
    and old: "\<forall>p \<in> set ?rb. timestamp (the (flit_at (heap s) p)) \<le> t"
    using assms(1) by (auto simp: all_covered_def)
  have "retireFlits (\<lambda>u. u \<le> t) ?rb (heap s) =
      Some (of_nat (length ?rb), [], heap s |` (- set ?rb))"
    unfolding retireFlits_eq [OF alive] Let_def
    using old by (auto simp: restrict_map_def takeWhile_eq_all_conv [THEN iffD2]
        dropWhile_eq_Nil_conv [THEN iffD2])
  then show ?thesis using assms(2)
    by (simp add: processAck_def acked_def deschedule_if_eq upd_link_def fun_eq_iff)
qed

text \<open>The acknowledgement reaches the peer as a flit that the peer deletes.\<close>

lemma sendAck_all:
  assumes cov: "all_covered Link0 t s" and "\<not> txBlocked (link s Link0)"
    and fresh: "\<And>p. nextPtr s \<le> p \<Longrightarrow> heap s p = None"
  shows "sendAck (rx_sendTimingResp Link1) Link1 t s =
    Some (upd_link Link1 (upd_stats (\<lambda>st. st\<lparr>totalAcksSent := totalAcksSent st + 1\<rparr>))
      (acked Link0 t (s\<lparr>nextPtr := Suc (nextPtr s)\<rparr>)))"
proof -
  obtain f where f: "newFlit (curTick s) UCIE_FLIT_SIZE_BYTES WriteResp (curTick s)
      FLIT_LEVEL_ACK = Some f" "flitType f = FLIT_LEVEL_ACK" "cmd f = WriteResp"
    using newFlit_eq by blast
  let ?n = "nextPtr s" and ?f = "f\<lparr>timestamp := t\<rparr>" and ?rb = "retryBuffer (link s Link0)"
  let ?s1 = "s\<lparr>heap := (heap s)(?n \<mapsto> FlitObj ?f), nextPtr := Suc ?n\<rparr>"
  have new: "?n \<notin> set ?rb" using cov fresh [of ?n] by (auto simp: all_covered_def)
  then have "all_covered Link0 t ?s1" using cov by (auto simp: all_covered_def)
  then have "processAck Link0 t ?s1 = Some (acked Link0 t ?s1)"
    using assms(2) by (intro processAck_all) simp_all
  then have "sendAck (rx_sendTimingResp Link1) Link1 t s =
      Some (upd_link Link1 (upd_stats (\<lambda>st. st\<lparr>totalAcksSent := totalAcksSent st + 1\<rparr>))
        (acked Link0 t ?s1\<lparr>heap := (heap (acked Link0 t ?s1))(?n := None)\<rparr>))"
    using f new
    by (simp add: sendAck_def new_obj_def rx_sendTimingResp.simps sendResp_def
        tx_recvTimingResp_def delete_obj_def)
  moreover have "(heap (acked Link0 t ?s1))(?n := None) =
      heap (acked Link0 t (s\<lparr>nextPtr := Suc ?n\<rparr>))"
    using new fresh [of ?n] by (auto simp: fun_eq_iff restrict_map_def)
  moreover have "acked Link0 t ?s1\<lparr>heap := heap (acked Link0 t (s\<lparr>nextPtr := Suc ?n\<rparr>))\<rparr> =
      acked Link0 t (s\<lparr>nextPtr := Suc ?n\<rparr>)"
    by (simp add: acked_def upd_link_def)
  ultimately show ?thesis by (simp only:)
qed

subsection \<open>Receiving a flit\<close>

text \<open>The error injection leaves the flit alone.\<close>

definition no_crc_error :: "ucie_link \<Rightarrow> flit \<Rightarrow> bool" where
  "no_crc_error l f \<longleftrightarrow> errorRate l \<le> 0 \<or> isRetransmission f \<or> rxWaitingForRetry l \<or>
     rxBitsReceived l + 2048 < nextErrorAtBits l"

lemma flit_bits [simp]: "ucast (UCIE_FLIT_SIZE_BYTES * 8) = (2048 :: u64)"
  by (simp add: UCIE_FLIT_SIZE_BYTES_def)

text \<open>The receiver may process the flit: no error, not locked, not a duplicate.\<close>

definition processable :: "ucie_link \<Rightarrow> flit \<Rightarrow> bool" where
  "processable l f \<longleftrightarrow> no_crc_error l f \<and> (rxWaitingForRetry l \<longrightarrow> isRetransmission f) \<and>
     (rxFlitCounter l = 0 \<or> lastProcessedTimestamp l < timestamp f)"

text \<open>The sender's end is ready for the acknowledgement of \<open>t\<close>.\<close>

definition ack_ready :: "Tick \<Rightarrow> sys \<Rightarrow> bool" where
  "ack_ready t s \<longleftrightarrow> all_covered Link0 t s \<and> \<not> txBlocked (link s Link0) \<and>
     (\<forall>p \<ge> nextPtr s. heap s p = None)"

lemma recvFlit_processed:
  assumes p: "heap s p = Some (FlitObj w)" and ok: "processable (link s Link1) w"
    and tlps: "\<forall>x \<in> set (originalPackets w). timed (heap s) x" "distinct (originalPackets w)"
    and queue: "\<forall>x \<in> set (tlpSendQueue (link s Link1)). live_req (heap s) x"
    and ready: "ack_ready (timestamp w) s" and away: "p \<notin> set (retryBuffer (link s Link0))"
  obtains s' st q blk room m where
    "recvFlit (sendReq mem_recvTimingReq) (rx_sendTimingResp Link1) Link1 p w s = Some (True, s')"
    "curTick s' = curTick s" "nextPtr s' = Suc (nextPtr s)"
    "eventq s' = q_remove (RetryTimeout Link0) (eventq s)"
    "link s' Link0 = link (acked Link0 (timestamp w) s) Link0"
    "link s' Link1 = (link s Link1)\<lparr>rxBitsReceived := rxBitsReceived (link s Link1) + 2048,
       rxWaitingForRetry := False, lastProcessedTimestamp := timestamp w,
       rxFlitCounter := rxFlitCounter (link s Link1) + 1, tlpSendQueue := q, tlpBlocked := blk,
       stats := st\<rparr>"
    "env s' = (env s)\<lparr>memRoom := room, memTaken := memTaken (env s) @ m\<rparr>"
    "m @ q = tlpSendQueue (link s Link1) @ originalPackets w"
    "\<not> blk \<Longrightarrow> \<not> tlpBlocked (link s Link1) \<and> q = []"
    "tlpLatency st = tlpLatency (stats (link s Link1)) @
       map (\<lambda>x. curTick s - entry_at (heap s) x) (originalPackets w)"
    "heap s' p = None" "\<And>x. x \<in> set (retryBuffer (link s Link0)) \<Longrightarrow> heap s' x = None"
    "\<And>x. x \<in> set (originalPackets w) \<Longrightarrow> live_req (heap s') x"
    "\<And>x. x \<noteq> p \<Longrightarrow> x \<notin> set (retryBuffer (link s Link0)) \<Longrightarrow> x \<notin> set (originalPackets w) \<Longrightarrow>
       heap s' x = heap s x"
proof -
  let ?ps = "originalPackets w" and ?rb = "retryBuffer (link s Link0)" and ?l = "link s Link1"
  define s3 where "s3 = upd_link Link1 (\<lambda>l. l\<lparr>lastProcessedTimestamp := timestamp w,
        rxFlitCounter := rxFlitCounter l + 1\<rparr>)
      (upd_link Link1 (\<lambda>l. l\<lparr>rxWaitingForRetry := False\<rparr>)
        (upd_link Link1 (\<lambda>l. upd_stats
          (\<lambda>st. st\<lparr>totalFlitsReceived := totalFlitsReceived st + 1\<rparr>)
          (l\<lparr>rxBitsReceived := rxBitsReceived l + 2048\<rparr>)) s))"
  have s3 [simp]: "heap s3 = heap s" "nextPtr s3 = nextPtr s" "eventq s3 = eventq s"
    "curTick s3 = curTick s" "env s3 = env s" "link s3 Link0 = link s Link0"
    by (simp_all add: s3_def)
  have "\<forall>x \<in> set ?ps. timed (heap s3) x" using tlps by simp
  then obtain h where h: "unpackTlps Link1 ?ps s3 = Some (upd_link Link1 (\<lambda>l.
        upd_stats (received s3 ?ps) (l\<lparr>tlpSendQueue := tlpSendQueue l @ ?ps\<rparr>)) (s3\<lparr>heap := h\<rparr>))"
      (is "_ = Some ?s4")
    and same: "\<And>x. x \<notin> set ?ps \<Longrightarrow> h x = heap s x" and live: "\<And>x. x \<in> set ?ps \<Longrightarrow> live_req h x"
    by (rule unpackTlps_timed [OF _ tlps(2), where i = Link1]) auto
  have not_tlp: "x \<notin> set ?ps" if "heap s x = Some (FlitObj f)" for x f
    using that tlps(1) by (auto simp: timed_def)
  have "live_req h x" if "x \<in> set (tlpSendQueue ?l)" for x
    using that queue live same live_req_eq [of h x "heap s"] by (cases "x \<in> set ?ps") auto
  then have "drainTlpSendQueue (sendReq mem_recvTimingReq) Link1 ?s4 = Some (drained Link1 ?s4)"
    using live by (intro drainTlpSendQueue_mem) (auto simp: s3_def)
  define s5 where "s5 = drained Link1 ?s4"
  have s5 [simp]: "heap s5 = h" "nextPtr s5 = nextPtr s" "eventq s5 = eventq s"
    "curTick s5 = curTick s" "link s5 Link0 = link s Link0"
    by (simp_all add: s5_def drained_def Let_def)
  have hp: "h p = Some (FlitObj w)" using p same not_tlp by simp
  have rb: "h x = heap s x" if "x \<in> set ?rb" for x
    using that ready same not_tlp by (fastforce simp: ack_ready_def all_covered_def)
  have rb_tlp: "x \<notin> set ?ps" if "x \<in> set ?rb" for x
    using that ready not_tlp by (fastforce simp: ack_ready_def all_covered_def)
  have cov: "all_covered Link0 (timestamp w) s5"
    using ready rb by (auto simp: ack_ready_def all_covered_def)
  have fresh: "heap s5 x = None" if "nextPtr s5 \<le> x" for x
  proof -
    have "heap s x = None" using that ready by (simp add: ack_ready_def)
    moreover from this have "x \<notin> set ?ps" using tlps(1) by (auto simp: timed_def)
    ultimately show ?thesis by (simp add: same)
  qed
  have ack: "sendAck (rx_sendTimingResp Link1) Link1 (timestamp w) s5 =
      Some (upd_link Link1 (upd_stats (\<lambda>st. st\<lparr>totalAcksSent := totalAcksSent st + 1\<rparr>))
        (acked Link0 (timestamp w) (s5\<lparr>nextPtr := Suc (nextPtr s5)\<rparr>)))" (is "_ = Some ?s6")
    by (rule sendAck_all [OF cov]) (use ready fresh in \<open>auto simp: ack_ready_def\<close>)
  have s6: "heap ?s6 p = Some (FlitObj w)" using hp away by simp
  have flit: "flit_at h p = Some w" using hp by simp
  have step: "recvFlit (sendReq mem_recvTimingReq) (rx_sendTimingResp Link1) Link1 p w s =
      do { s4 \<leftarrow> unpackTlps Link1 ?ps s3;
           s5 \<leftarrow> drainTlpSendQueue (sendReq mem_recvTimingReq) Link1 s4;
           f1 \<leftarrow> flit_at (heap s5) p;
           s6 \<leftarrow> sendAck (rx_sendTimingResp Link1) Link1 (timestamp f1) s5;
           s7 \<leftarrow> delete_obj p s6;
           Some (True, s7) }"
    using ok
    by (auto simp: recvFlit_def Let_def processable_def no_crc_error_def processReceivedFlit_def
        not_le word_gt_0 s3_def)
  let ?s7 = "?s6\<lparr>heap := (heap ?s6)(p := None)\<rparr>"
  have run: "recvFlit (sendReq mem_recvTimingReq) (rx_sendTimingResp Link1) Link1 p w s =
      Some (True, ?s7)"
    using h \<open>drainTlpSendQueue _ Link1 ?s4 = _\<close> flit ack s6
    by (simp add: step s5_def [symmetric] delete_obj_def)
  obtain m where m: "memTaken (env s5) = memTaken (env s) @ m"
    "m @ tlpSendQueue (link s5 Link1) = tlpSendQueue ?l @ ?ps"
    using drained_stream [of Link1 ?s4] by (auto simp: s5_def s3_def)
  show ?thesis
  proof (rule that [OF run, where q = "tlpSendQueue (link s5 Link1)" and m = m
        and blk = "tlpBlocked (link s5 Link1)" and room = "memRoom (env s5)"
        and st = "stats (link ?s6 Link1)"])
    show "link ?s7 Link0 = link (acked Link0 (timestamp w) s) Link0" by (simp add: acked_def)
    show "link ?s7 Link1 = ?l\<lparr>rxBitsReceived := rxBitsReceived ?l + 2048,
       rxWaitingForRetry := False, lastProcessedTimestamp := timestamp w,
       rxFlitCounter := rxFlitCounter ?l + 1, tlpSendQueue := tlpSendQueue (link s5 Link1),
       tlpBlocked := tlpBlocked (link s5 Link1), stats := stats (link ?s6 Link1)\<rparr>"
      by (simp add: s5_def drained_def Let_def s3_def upd_stats_def)
    show "tlpLatency (stats (link ?s6 Link1)) = tlpLatency (stats ?l) @
       map (\<lambda>x. curTick s - entry_at (heap s) x) ?ps"
      by (simp add: s5_def drained_def Let_def s3_def received_def)
    show "m @ tlpSendQueue (link s5 Link1) = tlpSendQueue ?l @ ?ps" by (rule m(2))
    show "env ?s7 = (env s)\<lparr>memRoom := memRoom (env s5), memTaken := memTaken (env s) @ m\<rparr>"
      using m(1) by (simp add: s5_def drained_def Let_def s3_def)
  qed (use same rb live away not_tlp p rb_tlp in
      \<open>auto simp: s5_def drained_def Let_def s3_def restrict_map_def live_req_def split: if_splits\<close>)
qed

text \<open>A duplicate is acknowledged again and dropped.\<close>

lemma recvFlit_duplicate:
  assumes p: "heap s p = Some (FlitObj w)" and ok: "no_crc_error (link s Link1) w"
    "rxWaitingForRetry (link s Link1) \<longrightarrow> isRetransmission w"
    and dup: "rxFlitCounter (link s Link1) \<noteq> 0"
    "timestamp w \<le> lastProcessedTimestamp (link s Link1)"
    and ready: "ack_ready (lastProcessedTimestamp (link s Link1)) s"
    and away: "p \<notin> set (retryBuffer (link s Link0))"
  obtains s' st where
    "recvFlit sendRq (rx_sendTimingResp Link1) Link1 p w s = Some (True, s')"
    "curTick s' = curTick s" "nextPtr s' = Suc (nextPtr s)" "env s' = env s"
    "eventq s' = q_remove (RetryTimeout Link0) (eventq s)"
    "link s' Link0 = link (acked Link0 (lastProcessedTimestamp (link s Link1)) s) Link0"
    "link s' Link1 = (link s Link1)\<lparr>rxBitsReceived := rxBitsReceived (link s Link1) + 2048,
       rxWaitingForRetry := False, stats := st\<rparr>"
    "heap s' = (heap s |` (- set (retryBuffer (link s Link0))))(p := None)"
proof -
  let ?t = "lastProcessedTimestamp (link s Link1)"
  define s2 where "s2 = upd_link Link1 (\<lambda>l. l\<lparr>rxWaitingForRetry := False\<rparr>)
    (upd_link Link1 (\<lambda>l. upd_stats
      (\<lambda>st. st\<lparr>totalFlitsReceived := totalFlitsReceived st + 1\<rparr>)
      (l\<lparr>rxBitsReceived := rxBitsReceived l + 2048\<rparr>)) s)"
  have s2 [simp]: "heap s2 = heap s" "nextPtr s2 = nextPtr s" "eventq s2 = eventq s"
    "curTick s2 = curTick s" "env s2 = env s" "link s2 Link0 = link s Link0"
    by (simp_all add: s2_def)
  have cov: "all_covered Link0 ?t s2" using ready by (simp add: ack_ready_def all_covered_def)
  have ack: "sendAck (rx_sendTimingResp Link1) Link1 ?t s2 =
      Some (upd_link Link1 (upd_stats (\<lambda>st. st\<lparr>totalAcksSent := totalAcksSent st + 1\<rparr>))
        (acked Link0 ?t (s2\<lparr>nextPtr := Suc (nextPtr s2)\<rparr>)))" (is "_ = Some ?s3")
    by (rule sendAck_all [OF cov]) (use ready in \<open>auto simp: ack_ready_def\<close>)
  have "recvFlit sendRq (rx_sendTimingResp Link1) Link1 p w s =
      do { s3 \<leftarrow> sendAck (rx_sendTimingResp Link1) Link1 ?t s2;
           s4 \<leftarrow> delete_obj p s3;
           Some (True, s4) }"
    using ok dup
    by (auto simp: recvFlit_def Let_def no_crc_error_def not_le word_gt_0 s2_def)
  also have "\<dots> = Some (True, ?s3\<lparr>heap := (heap ?s3)(p := None)\<rparr>)"
    using ack p away by (simp add: delete_obj_def)
  finally show ?thesis
    by (rule that [where st = "stats (link ?s3 Link1)"])
      (use p away in \<open>simp_all add: acked_def s2_def upd_stats_def\<close>)
qed

section \<open>Evaluating runs\<close>

text \<open>
  A concrete run is evaluated by rewriting with the definitions; a new flit stays a
  symbolic value, so that the bytes of its buffer are never written out.
\<close>

named_theorems run_simps \<open>definitions that evaluate a run of the two links\<close>

lemmas link_run_defs [run_simps] = Let_def init_def mkLink_def packer_init_def stats_init_def
  clocked_init_def new_obj_def delete_obj_def flit_at_def pkt_at_def cmd_at_def put_pkt_def
  put_flit_def upd_link_def upd_stats_def scheduled_def schedule_def schedule_unless_def
  deschedule_def deschedule_if_def q_member_def q_remove_def link_clockEdge_def clockEdge_def
  update_def divCeil_def

lemmas sender_run_defs [run_simps] = newFlit_eval recvTlp_def pushSenderState_def
  processIncomingTLP_def packFullFlits.simps stagedBytes_def hasStagedData_def assembleFlit_def
  forceFlush_def processPackTlp_def processSendFlit_def wireClone_def flitSent_def recordSent_def
  processRetryTimeout_def probeClone_def processAck_def processNak_def drainTxSendQueue_def
  tx_recvTimingResp_def tx_recvReqRetry_def UCIE_PAYLOAD_SIZE_BYTES_def UCIE_FLIT_SIZE_BYTES_def
  TLP_HEADER_BYTES_def

lemmas receiver_run_defs [run_simps] = rx_recvTimingReq_def rx_recvRespRetry_def recvFlit_def
  processReceivedFlit_def popSenderState_at_def popSenderState_def drainTlpSendQueue.simps
  sendAck_def sendNak_def errorGapBits_def to_u64_def

lemmas system_run_defs [run_simps] = sys_init_def sendReq_def sendResp_def mem_recvTimingReq_def
  cpu_recvTimingResp_def tx_sendTimingReq.simps rx_sendTimingResp.simps

end
