(* ===== verification/UcieClean.thy ===== *)
theory UcieClean
  imports UcieSystem
begin

text \<open>
  The link on a clean channel: when \<open>Link1\<close> injects no errors, no two flits are
  sent in the same tick and there are at least two credits, every action of the
  system runs without an abort and keeps an invariant. The invariant says that the
  memory receives the TLPs of the CPU in order and exactly once, and that no TLP, flit
  or unacknowledged flit waits without an event that will serve it.
\<close>

section \<open>The clean channel\<close>

text \<open>
  The invariant of the system when \<open>Link1\<close> injects no errors. The TLPs that the
  CPU sent are, in order, those the memory has taken, those \<open>Link1\<close> has unpacked,
  those in the flits that wait to be sent, and those in the packer.
\<close>

definition in_flits :: "sys \<Rightarrow> ptr list" where
  "in_flits s =
     concat (map (\<lambda>p. originalPackets (the (flit_at (heap s) p))) (txSendQueue (link s Link0)))"

definition in_packer :: "sys \<Rightarrow> ptr list" where
  "in_packer s = map staged_pkt (tlpQueue (txPacker (link s Link0)))"

definition tlps_ok :: "sys \<Rightarrow> bool" where
  "tlps_ok s \<longleftrightarrow>
     cpuSent (env s) = memTaken (env s) @ tlpSendQueue (link s Link1) @ in_flits s @ in_packer s \<and>
     distinct (cpuSent (env s)) \<and> (\<forall>p \<in> set (cpuSent (env s)). p < nextPtr s) \<and>
     (\<forall>p \<in> set (tlpSendQueue (link s Link1)). live_req (heap s) p) \<and>
     (\<forall>p \<in> set (in_flits s @ in_packer s). timed (heap s) p)"

definition sender_ok :: "sys \<Rightarrow> bool" where
  "sender_ok s \<longleftrightarrow> (let l = link s Link0 in
     packer_ok (txPacker l) \<and> \<not> txBlocked l \<and>
     linkState l = ACTIVE \<and> tlpSendQueue l = [] \<and> 2 \<le> creditPool l \<and>
     unat (txCredits l) + length (retryBuffer l) = unat (creditPool l) \<and>
     length (retryBuffer l) \<le> 1 \<and> retryTimeoutDelay l < 2 ^ 62)"

definition flits_ok :: "sys \<Rightarrow> bool" where
  "flits_ok s \<longleftrightarrow> (let l = link s Link0 in
     (\<forall>p \<ge> nextPtr s. heap s p = None) \<and>
     distinct (txSendQueue l @ retryBuffer l) \<and>
     (\<forall>p \<in> set (txSendQueue l). \<exists>f. heap s p = Some (FlitObj f) \<and> \<not> isRetransmission f) \<and>
     (\<forall>p \<in> set (retryBuffer l). \<exists>f. heap s p = Some (FlitObj f) \<and>
        timestamp f \<le> lastProcessedTimestamp (link s Link1)))"

definition receiver_ok :: "sys \<Rightarrow> bool" where
  "receiver_ok s \<longleftrightarrow> (let l = link s Link1 in
     txSendQueue l = [] \<and> retryBuffer l = [] \<and> currentBytes (txPacker l) = 0 \<and> \<not> txBlocked l \<and>
     \<not> rxWaitingForRetry l \<and> errorRate l \<le> 0 \<and> lastProcessedTimestamp l \<le> curTick s \<and>
     unat (rxFlitCounter l) \<le> unat (lastProcessedTimestamp l) + 1 \<and>
     (rxFlitCounter l = 0 \<longrightarrow> retryBuffer (link s Link0) = []))"

definition events_ok :: "sys \<Rightarrow> bool" where
  "events_ok s \<longleftrightarrow> q_sorted (eventq s) \<and> distinct (map snd (eventq s)) \<and>
     (\<forall>x \<in> set (eventq s). curTick s \<le> fst (fst x)) \<and> curTick s < 2 ^ 62 \<and>
     (\<forall>i. 0 < clockPeriod (link s i) \<and> clockPeriod (link s i) < 2 ^ 32 \<and>
          clock_ok (curTick s) (clockPeriod (link s i)) (clk (link s i)))"

definition clean :: "sys \<Rightarrow> bool" where
  "clean s \<longleftrightarrow> tlps_ok s \<and> sender_ok s \<and> flits_ok s \<and> receiver_ok s \<and> events_ok s"

text \<open>Less than a flit is left in the packer.\<close>

definition packed :: "sys \<Rightarrow> bool" where
  "packed s \<longleftrightarrow> currentBytes (txPacker (link s Link0)) < 236"

text \<open>
  No work is forgotten: whatever waits has its event scheduled, apart from the
  events in \<open>X\<close>, and unpacked TLPs wait only for a retry of the memory.
\<close>

definition work_ok :: "link_event set \<Rightarrow> sys \<Rightarrow> bool" where
  "work_ok X s \<longleftrightarrow> (let l = link s Link0 in
     (txSendQueue l \<noteq> [] \<longrightarrow> SendFlit Link0 \<in> X \<or> scheduled (SendFlit Link0) s) \<and>
     (currentBytes (txPacker l) \<noteq> 0 \<longrightarrow> PackTlp Link0 \<in> X \<or> scheduled (PackTlp Link0) s) \<and>
     (retryBuffer l \<noteq> [] \<longrightarrow> RetryTimeout Link0 \<in> X \<or> scheduled (RetryTimeout Link0) s) \<and>
     (\<not> tlpBlocked (link s Link1) \<longrightarrow> tlpSendQueue (link s Link1) = []))"

lemmas clean_defs = clean_def tlps_ok_def sender_ok_def flits_ok_def receiver_ok_def
  events_ok_def Let_def

lemma all_link_id [simp]: "(\<forall>i. P i) \<longleftrightarrow> P Link0 \<and> P Link1"
  by (metis link_id.exhaust)

subsection \<open>Scheduling\<close>

definition sched :: "link_event \<Rightarrow> Tick \<Rightarrow> sys \<Rightarrow> sys" where
  "sched ev t s = (if scheduled ev s then s else s\<lparr>eventq := q_insert (t, 0) ev (eventq s)\<rparr>)"

lemma schedule_unless_eq: "curTick s \<le> t \<Longrightarrow> schedule_unless ev t s = Some (sched ev t s)"
  by (simp add: schedule_unless_def schedule_def sched_def)

lemma schedule_eq:
  "curTick s \<le> t \<Longrightarrow> \<not> scheduled ev s \<Longrightarrow> schedule ev t s = Some (sched ev t s)"
  by (simp add: schedule_def sched_def)

lemma sched_sel [simp]:
  "heap (sched ev t s) = heap s" "nextPtr (sched ev t s) = nextPtr s"
  "curTick (sched ev t s) = curTick s" "link (sched ev t s) = link s" "env (sched ev t s) = env s"
  "scheduled ev' (sched ev t s) \<longleftrightarrow> ev' = ev \<or> scheduled ev' s"
  by (auto simp: sched_def scheduled_def)

lemma parts_cong:
  assumes "heap s' = heap s" "nextPtr s' = nextPtr s" "link s' = link s" "env s' = env s"
    "curTick s' = curTick s"
  shows "tlps_ok s' = tlps_ok s" "sender_ok s' = sender_ok s" "flits_ok s' = flits_ok s"
    "receiver_ok s' = receiver_ok s"
  by (simp_all only: tlps_ok_def sender_ok_def flits_ok_def receiver_ok_def in_flits_def
      in_packer_def assms)

lemma clean_sched:
  assumes "clean s" and "curTick s \<le> t"
  shows "clean (sched ev t s)"
proof -
  have "events_ok (sched ev t s)" using assms
    by (auto simp: clean_def events_ok_def sched_def scheduled_def q_sorted_insert
        distinct_q_insert)
  then show ?thesis using assms(1) parts_cong [of "sched ev t s" s] by (simp add: clean_def)
qed

text \<open>Ticks below the horizon do not wrap around when a delay is added.\<close>

lemma tick_add: "a < 2 ^ 62 \<Longrightarrow> d < 2 ^ 63 \<Longrightarrow> a \<le> a + (d :: Tick)"
  by (simp add: word_le_nat_alt word_less_nat_alt unat_word_ariths)

subsection \<open>Packing\<close>

lemma byte_stream_eq_Nil [simp]: "byte_stream q = [] \<longleftrightarrow> q = []"
  by (cases q) (simp_all add: tlp_bytes_def)

lemma forceFlush_all:
  assumes "packer_ok k" and "currentBytes k < 236" and "currentBytes k \<noteq> 0"
  obtains f k' where "forceFlush now k = Some (Some f, k')" and "packer_ok k'"
    and "currentBytes k' = 0" and "tlpQueue k' = []" and "\<not> isRetransmission f"
    and "originalPackets f = map staged_pkt (tlpQueue k)"
proof -
  obtain f k' where f: "assembleFlit now True k = Some (Some f, k')" "packer_ok k'"
    "originalPackets f = last_bytes (take 236 (byte_stream (tlpQueue k)))"
    "byte_stream (tlpQueue k') = drop 236 (byte_stream (tlpQueue k))"
    "unat (currentBytes k') = unat (currentBytes k) - 236" "\<not> isRetransmission f"
    using assembleFlit_cuts [OF assms(1,3)] by metis
  have small: "length (byte_stream (tlpQueue k)) < 236"
    using packer_length [OF assms(1)] assms(2) by (simp add: word_less_nat_alt)
  show ?thesis
  proof (rule that [OF _ f(2) _ _ f(6)])
    show "forceFlush now k = Some (Some f, k')"
      using f(1) assms(3) by (simp add: forceFlush_def hasStagedData_def word_gt_0)
    show "currentBytes k' = 0"
      using f(5) assms(2) by (simp add: word_less_nat_alt unat_eq_zero)
    show "tlpQueue k' = []" using f(4) small by simp
    show "originalPackets f = map staged_pkt (tlpQueue k)"
      using f(3) small by (simp add: last_bytes_stream)
  qed
qed

lemma timed_not_flit: "timed h p \<Longrightarrow> h p \<noteq> Some (FlitObj f)"
  by (auto simp: timed_def)

text \<open>Appending a new flit, cut from the packer, to the send queue.\<close>

definition push_flit :: "flit \<Rightarrow> FlitPacker \<Rightarrow> sys \<Rightarrow> sys" where
  "push_flit f k s =
     s\<lparr>heap := (heap s)(nextPtr s \<mapsto> FlitObj f), nextPtr := Suc (nextPtr s),
       link := (link s)(Link0 := (link s Link0)
         \<lparr>txPacker := k, txSendQueue := txSendQueue (link s Link0) @ [nextPtr s]\<rparr>)\<rparr>"

lemma push_flit_sel [simp]:
  "heap (push_flit f k s) = (heap s)(nextPtr s \<mapsto> FlitObj f)"
  "nextPtr (push_flit f k s) = Suc (nextPtr s)" "eventq (push_flit f k s) = eventq s"
  "curTick (push_flit f k s) = curTick s" "env (push_flit f k s) = env s"
  "link (push_flit f k s) Link1 = link s Link1"
  "link (push_flit f k s) Link0 = (link s Link0)
     \<lparr>txPacker := k, txSendQueue := txSendQueue (link s Link0) @ [nextPtr s]\<rparr>"
  "scheduled ev (push_flit f k s) = scheduled ev s"
  by (simp_all add: push_flit_def scheduled_def)

lemma live_ptrs:
  assumes "\<forall>p \<ge> nextPtr s. heap s p = None"
  shows "heap s p = Some ob \<Longrightarrow> p < nextPtr s" and "live_req (heap s) p \<Longrightarrow> p < nextPtr s"
    and "timed (heap s) p \<Longrightarrow> p < nextPtr s"
  using assms by (auto simp: live_req_def timed_def not_le [symmetric])

lemma in_flits_push:
  assumes "\<forall>p \<in> set (txSendQueue (link s Link0)). p < nextPtr s"
  shows "in_flits (push_flit f k s) = in_flits s @ originalPackets f"
proof -
  have "map (\<lambda>p. originalPackets (the (flit_at ((heap s)(nextPtr s \<mapsto> FlitObj f)) p)))
          (txSendQueue (link s Link0)) =
        map (\<lambda>p. originalPackets (the (flit_at (heap s) p))) (txSendQueue (link s Link0))"
    using assms by (intro map_cong) (auto simp: flit_at_def)
  then show ?thesis by (simp add: in_flits_def del: map_eq_conv)
qed

lemma clean_push:
  assumes c: "clean s" and k: "packer_ok k" and f: "\<not> isRetransmission f"
    and cut: "in_packer s = originalPackets f @ map staged_pkt (tlpQueue k)"
  shows "clean (push_flit f k s)"
proof -
  have fl: "flits_ok s" and tl: "tlps_ok s" using c by (simp_all add: clean_def)
  then have fresh: "\<forall>p \<ge> nextPtr s. heap s p = None" by (simp add: flits_ok_def Let_def)
  have old: "p < nextPtr s" if "p \<in> set (txSendQueue (link s Link0) @ retryBuffer (link s Link0))"
    for p using that fl live_ptrs(1) [OF fresh] by (auto simp: flits_ok_def Let_def)
  have "flits_ok (push_flit f k s)"
    using fl f old by (auto simp: flits_ok_def Let_def)
  moreover have "tlps_ok (push_flit f k s)"
  proof -
    have "in_flits (push_flit f k s) @ in_packer (push_flit f k s) = in_flits s @ in_packer s"
      using in_flits_push [of s f k] old cut by (simp add: in_packer_def)
    moreover have "live_req (heap (push_flit f k s)) p = live_req (heap s) p"
      and "timed (heap (push_flit f k s)) p = timed (heap s) p" if "p < nextPtr s" for p
      using that by (simp_all add: live_req_def timed_def)
    ultimately show ?thesis using tl live_ptrs [OF fresh]
      unfolding tlps_ok_def by (auto simp: less_Suc_eq)
  qed
  ultimately show ?thesis using c k
    by (simp add: clean_def sender_ok_def receiver_ok_def events_ok_def Let_def)
qed

lemma processPackTlp_clean:
  assumes c: "clean s" and small: "packed s" and w: "work_ok {PackTlp Link0} s"
  shows "\<exists>s'. processPackTlp Link0 s = Some s' \<and> clean s' \<and> packed s' \<and> work_ok {} s'"
proof (cases "currentBytes (txPacker (link s Link0)) = 0")
  case True
  then have "processPackTlp Link0 s = Some s"
    by (simp add: processPackTlp_def forceFlush_def hasStagedData_def upd_link_def)
  moreover have "work_ok {} s" using w True by (simp add: work_ok_def Let_def)
  ultimately show ?thesis using assms by blast
next
  case False
  have ok: "packer_ok (txPacker (link s Link0))"
    using c by (simp add: clean_def sender_ok_def Let_def)
  obtain f k where f: "forceFlush (curTick s) (txPacker (link s Link0)) = Some (Some f, k)"
    "packer_ok k" "currentBytes k = 0" "tlpQueue k = []" "\<not> isRetransmission f"
    "originalPackets f = map staged_pkt (tlpQueue (txPacker (link s Link0)))"
    using forceFlush_all [OF ok _ False] small unfolding packed_def by metis
  let ?s = "sched (SendFlit Link0) (curTick s) (push_flit f k s)"
  have "processPackTlp Link0 s = Some ?s"
    using f(1) by (simp add: processPackTlp_def new_obj_def push_flit_def upd_link_def
        schedule_unless_eq)
  moreover have "clean ?s"
    using f by (intro clean_sched clean_push c) (simp_all add: in_packer_def)
  moreover have "packed ?s" "work_ok {} ?s"
    using w f(3) by (simp_all add: packed_def work_ok_def Let_def)
  ultimately show ?thesis by blast
qed

text \<open>The loop that cuts full flits ends and leaves less than a flit.\<close>

lemma packFullFlits_clean:
  assumes "clean s" and "work_ok {PackTlp Link0} s" and "curTick s \<le> curTick s + d"
  shows "\<exists>s'. packFullFlits Link0 d s = Some s' \<and> clean s' \<and> packed s' \<and>
    work_ok {PackTlp Link0} s' \<and> curTick s' = curTick s \<and> env s' = env s"
  using assms
proof (induction "unat (currentBytes (txPacker (link s Link0)))" arbitrary: s rule: less_induct)
  case less
  let ?k = "txPacker (link s Link0)"
  show ?case
  proof (cases "currentBytes ?k < 236")
    case True
    then show ?thesis using less.prems
      by (simp add: packFullFlits.simps [of _ _ s] stagedBytes_def UCIE_PAYLOAD_SIZE_BYTES_def
          packed_def not_le [symmetric])
  next
    case False
    then have nz: "currentBytes ?k \<noteq> 0" by auto
    have ok: "packer_ok ?k" using less.prems(1) by (simp add: clean_def sender_ok_def Let_def)
    obtain f k where f: "assembleFlit (curTick s) False ?k = Some (Some f, k)" "packer_ok k"
      "originalPackets f = last_bytes (take 236 (byte_stream (tlpQueue ?k)))"
      "byte_stream (tlpQueue k) = drop 236 (byte_stream (tlpQueue ?k))"
      "unat (currentBytes k) = unat (currentBytes ?k) - 236" "\<not> isRetransmission f"
      using assembleFlit_cuts [OF ok nz] by metis
    let ?s = "sched (SendFlit Link0) (curTick s + d) (push_flit f k s)"
    have step: "packFullFlits Link0 d s = packFullFlits Link0 d ?s"
      using f(1) False less.prems(3)
      by (subst packFullFlits.simps) (simp add: stagedBytes_def UCIE_PAYLOAD_SIZE_BYTES_def
          not_less new_obj_def push_flit_def upd_link_def schedule_unless_eq)
    have "in_packer s = originalPackets f @ map staged_pkt (tlpQueue k)"
      using f(3,4) by (simp add: in_packer_def last_bytes_stream [symmetric]
          last_bytes_simps(4) [symmetric] del: last_bytes_simps)
    then have "clean ?s" using f less.prems by (intro clean_sched clean_push) simp_all
    moreover have "work_ok {PackTlp Link0} ?s"
      using less.prems(2) by (simp add: work_ok_def Let_def)
    moreover have "unat (currentBytes (txPacker (link ?s Link0))) < unat (currentBytes ?k)"
      using f(5) False nz by (simp add: word_less_nat_alt unat_gt_0)
    ultimately show ?thesis using less.hyps [of ?s] less.prems(3) step by simp
  qed
qed

subsection \<open>Sending a flit\<close>

lemma flitSent_eq:
  assumes "txSendQueue (link s i) = orig # rest" and "heap s orig = Some (FlitObj f)"
    and "curTick s \<le> curTick s + 1" and "curTick s \<le> curTick s + retryTimeoutDelay (link s i)"
  shows "flitSent i orig s =
    Some (sched (RetryTimeout i) (curTick s + retryTimeoutDelay (link s i))
      (if rest \<noteq> [] then sched (SendFlit i) (curTick s + 1) (recordSent i orig f s)
       else recordSent i orig f s))"
  using assms
  by (simp add: flitSent_def schedule_unless_eq)

text \<open>The next flit is not sent in the tick of the last one that the peer processed.\<close>

definition spaced :: "sys \<Rightarrow> bool" where
  "spaced s \<longleftrightarrow> txSendQueue (link s Link0) = [] \<or> rxFlitCounter (link s Link1) = 0 \<or>
     lastProcessedTimestamp (link s Link1) < curTick s"

lemma clean_dest:
  assumes "clean s"
  shows "tlps_ok s" "sender_ok s" "flits_ok s" "receiver_ok s" "events_ok s"
  using assms by (simp_all add: clean_def)

text \<open>An acknowledgement of the whole retry buffer brings all credits back.\<close>

lemma all_credits:
  assumes "sender_ok s"
  shows "txCredits (link s Link0) + of_nat (length (retryBuffer (link s Link0))) =
    creditPool (link s Link0)"
proof (rule unsigned_word_eqI)
  let ?rb = "retryBuffer (link s Link0)"
  have "unat (of_nat (length ?rb) :: u32) = length ?rb"
    using assms by (simp add: sender_ok_def Let_def unsigned_of_nat take_bit_nat_eq_self)
  then show "unat (txCredits (link s Link0) + of_nat (length ?rb)) =
      unat (creditPool (link s Link0))"
    using assms unsigned_less [of "creditPool (link s Link0)"]
    by (subst unat_add_small) (simp_all add: sender_ok_def Let_def)
qed

lemma acked_link_cong: "link s' = link s \<Longrightarrow> link (acked i t s') i = link (acked i t s) i"
  by (simp add: acked_def)

text \<open>Delivery of the first flit of the send queue, up to the return of the port call.\<close>

lemma send_first:
  assumes c: "clean s" and sp: "spaced s" and q: "txSendQueue (link s Link0) = orig # rest"
    and orig: "heap s orig = Some (FlitObj f)"
  obtains s' f1 st q' blk room m where
    "processSendFlit (tx_sendTimingReq Link0) Link0 s = flitSent Link0 orig s'"
    "heap s' orig = Some (FlitObj f1)" "timestamp f1 = curTick s"
    "curTick s' = curTick s" "nextPtr s' = nextPtr s + 2"
    "eventq s' = q_remove (RetryTimeout Link0) (eventq s)"
    "link s' Link0 = link (acked Link0 (curTick s) s) Link0"
    "link s' Link1 = (link s Link1)
      \<lparr>rxBitsReceived := rxBitsReceived (link s Link1) + 2048, rxWaitingForRetry := False,
       lastProcessedTimestamp := curTick s, rxFlitCounter := rxFlitCounter (link s Link1) + 1,
       tlpSendQueue := q', tlpBlocked := blk, stats := st\<rparr>"
    "env s' = (env s)\<lparr>memRoom := room, memTaken := memTaken (env s) @ m\<rparr>"
    "m @ q' = tlpSendQueue (link s Link1) @ originalPackets f" "\<not> blk \<longrightarrow> q' = []"
    "\<And>x. x \<in> set (originalPackets f) \<Longrightarrow> live_req (heap s') x"
    "\<And>x. nextPtr s \<le> x \<Longrightarrow> heap s' x = None"
    "\<And>x. x \<noteq> orig \<Longrightarrow> x \<notin> set (retryBuffer (link s Link0)) \<Longrightarrow> x \<notin> set (originalPackets f) \<Longrightarrow>
       heap s' x = heap s x"
proof -
  note parts = clean_dest [OF c]
  let ?wire = "nextPtr s" and ?f1 = "f\<lparr>timestamp := curTick s\<rparr>" and ?l1 = "link s Link1"
  let ?rb = "retryBuffer (link s Link0)"
  obtain w where w: "wireClone (curTick s) ?f1 = Some w" "timestamp w = curTick s"
    "originalPackets w = originalPackets f" "isRetransmission w = isRetransmission f"
    "cmd w = WriteReq"
    using wireClone_eq [of "curTick s" ?f1] by auto
  define s2 where "s2 = s\<lparr>heap := (heap s)(orig \<mapsto> FlitObj ?f1, ?wire \<mapsto> FlitObj w),
    nextPtr := Suc ?wire\<rparr>"
  have s2 [simp]: "link s2 = link s" "env s2 = env s" "curTick s2 = curTick s"
    "eventq s2 = eventq s" "nextPtr s2 = Suc ?wire"
    "heap s2 = (heap s)(orig \<mapsto> FlitObj ?f1, ?wire \<mapsto> FlitObj w)"
    by (simp_all add: s2_def)
  have fresh: "\<forall>p \<ge> ?wire. heap s p = None" using parts(3) by (simp add: flits_ok_def Let_def)
  have lt: "orig < ?wire" using live_ptrs(1) [OF fresh orig] .
  have nr: "\<not> isRetransmission f" using parts(3) orig q by (fastforce simp: flits_ok_def Let_def)
  have rb: "x \<noteq> orig \<and> (\<exists>g. heap s x = Some (FlitObj g) \<and>
      timestamp g \<le> lastProcessedTimestamp ?l1)" if "x \<in> set ?rb" for x
    using that parts(3) q by (auto simp: flits_ok_def Let_def)
  have tlps: "timed (heap s) x" if "x \<in> set (originalPackets f)" for x
    using that parts(1) q orig by (simp add: tlps_ok_def in_flits_def)
  have keep: "heap s2 x = heap s x" if "\<And>g. heap s x \<noteq> Some (FlitObj g)" "x \<noteq> ?wire" for x
    using that orig by (auto simp: fun_upd_def)
  have timed2: "timed (heap s2) x" if "x \<in> set (originalPackets f)" for x
    using tlps [OF that] keep [of x] live_ptrs(3) [OF fresh, of x] by (auto simp: timed_def)
  have live2: "live_req (heap s2) x" if "x \<in> set (tlpSendQueue ?l1)" for x
    using that parts(1) keep [of x] live_ptrs(2) [OF fresh, of x]
    by (fastforce simp: tlps_ok_def live_req_def)
  have ready: "ack_ready (timestamp w) s2"
    using parts(2,3,4) rb w(2) fresh lt live_ptrs(1) [OF fresh]
    by (fastforce simp: ack_ready_def all_covered_def sender_ok_def flits_ok_def receiver_ok_def
        Let_def)
  have ok: "processable (link s2 Link1) w"
    using parts(4) sp q w by (auto simp: processable_def no_crc_error_def receiver_ok_def spaced_def
        Let_def)
  have away: "?wire \<notin> set (retryBuffer (link s2 Link0))" using rb fresh by fastforce
  have wire: "heap s2 ?wire = Some (FlitObj w)" by simp
  have tl2: "\<forall>x \<in> set (originalPackets w). timed (heap s2) x" "distinct (originalPackets w)"
    using timed2 parts(1) q orig w(3) by (auto simp: tlps_ok_def in_flits_def)
  have q2: "\<forall>x \<in> set (tlpSendQueue (link s2 Link1)). live_req (heap s2) x" using live2 by simp
  have no_tlp: "orig \<notin> set (originalPackets f)" using tlps [of orig] orig by (auto simp: timed_def)
  have credit: "txCredits (link s Link0) \<noteq> 0"
    using parts(2) by (auto simp: sender_ok_def Let_def word_le_nat_alt)
  show ?thesis
  proof (rule recvFlit_processed [OF wire ok tl2 q2 ready away])
    fix s' st q' blk room m
    assume run: "recvFlit (sendReq mem_recvTimingReq) (rx_sendTimingResp Link1) Link1 ?wire w s2 =
        Some (True, s')"
      and s': "curTick s' = curTick s2" "nextPtr s' = Suc (nextPtr s2)"
        "eventq s' = q_remove (RetryTimeout Link0) (eventq s2)"
        "link s' Link0 = link (acked Link0 (timestamp w) s2) Link0"
        "link s' Link1 = (link s2 Link1)\<lparr>rxBitsReceived := rxBitsReceived (link s2 Link1) + 2048,
           rxWaitingForRetry := False, lastProcessedTimestamp := timestamp w,
           rxFlitCounter := rxFlitCounter (link s2 Link1) + 1, tlpSendQueue := q',
           tlpBlocked := blk, stats := st\<rparr>"
        "env s' = (env s2)\<lparr>memRoom := room, memTaken := memTaken (env s2) @ m\<rparr>"
        "m @ q' = tlpSendQueue (link s2 Link1) @ originalPackets w"
      and blk: "\<not> blk \<Longrightarrow> \<not> tlpBlocked (link s2 Link1) \<and> q' = []"
      and gone: "heap s' ?wire = None"
      and live: "\<And>x. x \<in> set (originalPackets w) \<Longrightarrow> live_req (heap s') x"
      and frame: "\<And>x. x \<noteq> ?wire \<Longrightarrow> x \<notin> set (retryBuffer (link s2 Link0)) \<Longrightarrow>
        x \<notin> set (originalPackets w) \<Longrightarrow> heap s' x = heap s2 x"
    have run: "processSendFlit (tx_sendTimingReq Link0) Link0 s = flitSent Link0 orig s'"
      using q orig nr w run parts(2) lt credit
      by (simp add: processSendFlit_def sender_ok_def Let_def new_obj_def s2_def put_flit_def
          tx_sendTimingReq.simps sendReq_def rx_recvTimingReq_def)
    show ?thesis
    proof (rule that [OF run, where ?f1.0 = ?f1 and st = st and q' = q' and blk = blk
          and room = room and m = m])
      show "heap s' orig = Some (FlitObj ?f1)" using frame [of orig] no_tlp w(3) rb lt by auto
      show "heap s' x = None" if "nextPtr s \<le> x" for x
        using that gone frame [of x] fresh rb [of x] tlps [of x] w(3) lt by (cases "x = ?wire") (auto simp: timed_def)
      show "heap s' x = heap s x"
        if "x \<noteq> orig" "x \<notin> set (retryBuffer (link s Link0))" "x \<notin> set (originalPackets f)" for x
        using that frame [of x] gone fresh w(3) by (cases "x = ?wire") auto
      show "link s' Link0 = link (acked Link0 (curTick s) s) Link0"
        using s'(4) w(2) acked_link_cong [of s2 s] by simp
    qed (use s' w live blk in auto)
  qed
qed

lemma sent_distinct: "tlps_ok s \<Longrightarrow> distinct (cpuSent (env s))"
  unfolding tlps_ok_def by blast

lemma sent_stream: "tlps_ok s \<Longrightarrow>
  cpuSent (env s) = memTaken (env s) @ tlpSendQueue (link s Link1) @ in_flits s @ in_packer s"
  unfolding tlps_ok_def by blast

lemma sent_old: "tlps_ok s \<Longrightarrow> p \<in> set (cpuSent (env s)) \<Longrightarrow> p < nextPtr s"
  unfolding tlps_ok_def by blast

lemma tlps_ok_keep:
  assumes ok: "tlps_ok s"
    and same: "cpuSent (env s') = cpuSent (env s)" "memTaken (env s') = memTaken (env s)"
      "tlpSendQueue (link s' Link1) = tlpSendQueue (link s Link1)" "in_flits s' = in_flits s"
      "in_packer s' = in_packer s" "nextPtr s \<le> nextPtr s'"
    and keep: "\<And>x. x \<in> set (tlpSendQueue (link s Link1)) \<Longrightarrow> live_req (heap s) x \<Longrightarrow>
        live_req (heap s') x"
      "\<And>x. x \<in> set (in_flits s @ in_packer s) \<Longrightarrow> timed (heap s) x \<Longrightarrow> timed (heap s') x"
  shows "tlps_ok s'"
  unfolding tlps_ok_def same(1-5)
proof (intro conjI ballI)
  fix p assume "p \<in> set (cpuSent (env s))"
  then show "p < nextPtr s'" using sent_old [OF ok, of p] same(6) by simp
next
  show "cpuSent (env s) = memTaken (env s) @ tlpSendQueue (link s Link1) @ in_flits s @ in_packer s"
    by (rule sent_stream [OF ok])
qed (use ok keep sent_distinct [OF ok] in \<open>auto simp: tlps_ok_def\<close>)

text \<open>The invariant after the flit was recorded as sent.\<close>

lemma clean_sent:
  assumes c: "clean s" and sp: "spaced s" and q: "txSendQueue (link s Link0) = orig # rest"
    and orig: "heap s orig = Some (FlitObj f)"
    and s': "heap s' orig = Some (FlitObj f1)" "timestamp f1 = curTick s"
      "curTick s' = curTick s" "nextPtr s' = nextPtr s + 2"
      "eventq s' = q_remove (RetryTimeout Link0) (eventq s)"
      "link s' Link0 = link (acked Link0 (curTick s) s) Link0"
    and l1: "link s' Link1 = (link s Link1)
      \<lparr>rxBitsReceived := bits, rxWaitingForRetry := False,
       lastProcessedTimestamp := curTick s, rxFlitCounter := rxFlitCounter (link s Link1) + 1,
       tlpSendQueue := q', tlpBlocked := blk, stats := st\<rparr>"
      "env s' = (env s)\<lparr>memRoom := room, memTaken := memTaken (env s) @ m\<rparr>"
      "m @ q' = tlpSendQueue (link s Link1) @ originalPackets f"
      "\<not> blk \<longrightarrow> q' = []"
    and live: "\<And>x. x \<in> set (originalPackets f) \<Longrightarrow> live_req (heap s') x"
    and fresh': "\<And>x. nextPtr s \<le> x \<Longrightarrow> heap s' x = None"
    and frame: "\<And>x. x \<noteq> orig \<Longrightarrow> x \<notin> set (retryBuffer (link s Link0)) \<Longrightarrow>
       x \<notin> set (originalPackets f) \<Longrightarrow> heap s' x = heap s x"
  shows "clean (recordSent Link0 orig f1 s')"
proof -
  note parts = clean_dest [OF c]
  let ?s = "recordSent Link0 orig f1 s'" and ?rb = "retryBuffer (link s Link0)"
  have ack [simp]: "retryBuffer (link s' Link0) = []" "txSendQueue (link s' Link0) = orig # rest"
    "txPacker (link s' Link0) = txPacker (link s Link0)" "\<not> txBlocked (link s' Link0)"
    "linkState (link s' Link0) = ACTIVE" "tlpSendQueue (link s' Link0) = []"
    "creditPool (link s' Link0) = creditPool (link s Link0)"
    "retryTimeoutDelay (link s' Link0) = retryTimeoutDelay (link s Link0)"
    "clk (link s' Link0) = clk (link s Link0)"
    "clockPeriod (link s' Link0) = clockPeriod (link s Link0)"
    using s'(6) q parts(2) by (simp_all add: acked_def sender_ok_def Let_def)
  have credits: "txCredits (link s' Link0) = creditPool (link s Link0)"
    using s'(6) all_credits [OF parts(2)] by (simp add: acked_def)
  have pk: "timed (heap s) x" if "x \<in> set (originalPackets f)" for x
    using that parts(1) q orig by (simp add: tlps_ok_def in_flits_def)
  have dist: "distinct (orig # rest @ ?rb)" using parts(3) q by (simp add: flits_ok_def Let_def)
  have waiting: "\<exists>g. heap s x = Some (FlitObj g) \<and> \<not> isRetransmission g" if "x \<in> set rest" for x
    using that parts(3) q by (simp add: flits_ok_def Let_def)
  have rest: "heap s' x = heap s x" if "x \<in> set rest" for x
    using that frame [of x] dist waiting [of x] pk [of x] timed_not_flit [of "heap s" x] by auto
  have rb: "\<exists>g. heap s x = Some (FlitObj g)" if "x \<in> set ?rb" for x
    using that parts(3) by (auto simp: flits_ok_def Let_def)
  have pkts: "heap s' x = heap s x"
    if "x \<notin> set (originalPackets f)" "heap s x = Some (PktObj g)" for x g
    using that frame [of x] orig rb [of x] by (cases "x = orig") auto
  have inf: "in_flits s = originalPackets f @ in_flits ?s"
  proof -
    have "map (\<lambda>p. originalPackets (the (flit_at (heap s') p))) rest =
          map (\<lambda>p. originalPackets (the (flit_at (heap s) p))) rest"
      using rest by (intro map_cong) (auto simp: flit_at_def)
    then show ?thesis using q orig by (simp add: in_flits_def del: map_eq_conv)
  qed
  have sender: "sender_ok ?s"
    using parts(2) credits by (auto simp: sender_ok_def Let_def word_le_nat_alt unat_sub)
  have flits: "flits_ok ?s"
    unfolding flits_ok_def Let_def
  proof (intro conjI)
    show "\<forall>p \<ge> nextPtr ?s. heap ?s p = None" using fresh' s'(4) by simp
    show "distinct (txSendQueue (link ?s Link0) @ retryBuffer (link ?s Link0))"
      using dist by simp
  qed (use waiting rest s'(1,2) l1(1) in auto)
  have receiver: "receiver_ok ?s"
  proof -
    have "unat (rxFlitCounter (link s Link1) + 1) \<le> unat (curTick s) + 1"
      "rxFlitCounter (link s Link1) + 1 \<noteq> 0"
    proof -
      let ?n = "rxFlitCounter (link s Link1)" and ?last = "lastProcessedTimestamp (link s Link1)"
      have n: "unat ?n \<le> unat ?last + 1" using parts(4) by (simp add: receiver_ok_def Let_def)
      have t: "unat (curTick s) < 2 ^ 62" using parts(5) by (simp add: events_ok_def word_less_nat_alt)
      have "unat ?n \<le> unat (curTick s)"
        using sp q n by (auto simp: spaced_def word_less_nat_alt)
      moreover from this have "unat (?n + 1) = unat ?n + 1"
        using t by (subst unat_add_small) simp_all
      ultimately show "unat (?n + 1) \<le> unat (curTick s) + 1" and "?n + 1 \<noteq> 0" by auto
    qed
    then show ?thesis using parts(4) l1 s'(3) by (simp add: receiver_ok_def Let_def)
  qed
  have events: "events_ok ?s"
    using parts(5) s'(3,5) l1(1) by (auto simp: events_ok_def q_sorted_remove distinct_q_remove)
  have tlps: "tlps_ok ?s"
  proof -
    have eq: "cpuSent (env s) = memTaken (env s) @ m @ q' @ in_flits ?s @ in_packer ?s"
      using parts(1) inf l1(3) by (simp add: tlps_ok_def in_packer_def)
    have "live_req (heap s') x" if x: "x \<in> set q'" for x
    proof (cases "x \<in> set (originalPackets f)")
      case False
      have "x \<in> set (m @ q')" using x by simp
      then have "live_req (heap s) x" using False parts(1) unfolding l1(3) by (auto simp: tlps_ok_def)
      then show ?thesis using pkts [OF False] by (auto simp: live_req_def)
    qed (rule live)
    moreover have "timed (heap s') x" if x: "x \<in> set (in_flits ?s @ in_packer ?s)" for x
    proof -
      have "cpuSent (env s) =
          (memTaken (env s) @ tlpSendQueue (link s Link1)) @ originalPackets f @
          in_flits ?s @ in_packer ?s"
        using parts(1) inf by (simp add: tlps_ok_def in_packer_def)
      with sent_distinct [OF parts(1)] have "distinct (originalPackets f @ in_flits ?s @ in_packer ?s)"
        by (simp only: distinct_append)
      with x have "x \<notin> set (originalPackets f)" by auto
      moreover have "timed (heap s) x"
        using x parts(1) inf by (auto simp: tlps_ok_def in_packer_def)
      ultimately show ?thesis using pkts [of x] by (auto simp: timed_def)
    qed
    ultimately show ?thesis unfolding tlps_ok_def
    proof (intro conjI)
      show "distinct (cpuSent (env ?s))" using sent_distinct [OF parts(1)] l1(2) by simp
      show "\<forall>p \<in> set (cpuSent (env ?s)). p < nextPtr ?s"
        using sent_old [OF parts(1)] l1(2) s'(4) by (simp add: less_SucI)
    qed (use eq l1(1,2) in simp_all)
  qed
  show ?thesis using tlps sender flits receiver events by (simp add: clean_def)
qed

lemma processSendFlit_clean:
  assumes c: "clean s" and small: "packed s" and w: "work_ok {SendFlit Link0} s"
    and sp: "spaced s"
  shows "\<exists>s'. processSendFlit (tx_sendTimingReq Link0) Link0 s = Some s' \<and>
    clean s' \<and> packed s' \<and> work_ok {} s'"
proof (cases "txSendQueue (link s Link0)")
  case Nil
  then have "processSendFlit (tx_sendTimingReq Link0) Link0 s = Some s"
    by (simp add: processSendFlit_def)
  moreover have "work_ok {} s" using w Nil by (simp add: work_ok_def Let_def)
  ultimately show ?thesis using c small by blast
next
  case (Cons orig rest)
  then obtain f where f: "heap s orig = Some (FlitObj f)"
    using clean_dest(3) [OF c] by (auto simp: flits_ok_def Let_def)
  show ?thesis
  proof (rule send_first [OF c sp Cons f])
    fix s' f1 st q' blk room m
    assume run: "processSendFlit (tx_sendTimingReq Link0) Link0 s = flitSent Link0 orig s'"
      and s': "heap s' orig = Some (FlitObj f1)" "timestamp f1 = curTick s"
        "curTick s' = curTick s" "nextPtr s' = nextPtr s + 2"
        "eventq s' = q_remove (RetryTimeout Link0) (eventq s)"
        "link s' Link0 = link (acked Link0 (curTick s) s) Link0"
      and rest: "link s' Link1 = (link s Link1)
          \<lparr>rxBitsReceived := rxBitsReceived (link s Link1) + 2048, rxWaitingForRetry := False,
           lastProcessedTimestamp := curTick s, rxFlitCounter := rxFlitCounter (link s Link1) + 1,
           tlpSendQueue := q', tlpBlocked := blk, stats := st\<rparr>"
        "env s' = (env s)\<lparr>memRoom := room, memTaken := memTaken (env s) @ m\<rparr>"
        "m @ q' = tlpSendQueue (link s Link1) @ originalPackets f" "\<not> blk \<longrightarrow> q' = []"
        "\<And>x. x \<in> set (originalPackets f) \<Longrightarrow> live_req (heap s') x"
        "\<And>x. nextPtr s \<le> x \<Longrightarrow> heap s' x = None"
        "\<And>x. x \<noteq> orig \<Longrightarrow> x \<notin> set (retryBuffer (link s Link0)) \<Longrightarrow>
           x \<notin> set (originalPackets f) \<Longrightarrow> heap s' x = heap s x"
    let ?r = "recordSent Link0 orig f1 s'" and ?D = "retryTimeoutDelay (link s Link0)"
    let ?m = "if rest \<noteq> [] then sched (SendFlit Link0) (curTick s' + 1) ?r else ?r"
    let ?e = "sched (RetryTimeout Link0) (curTick s' + ?D) ?m"
    have [simp]: "txSendQueue (link s' Link0) = orig # rest"
      "txPacker (link s' Link0) = txPacker (link s Link0)"
      "retryTimeoutDelay (link s' Link0) = ?D"
      using s'(6) Cons by (simp_all add: acked_def)
    have now: "curTick s < 2 ^ 62" "?D < 2 ^ 62"
      using clean_dest(2,5) [OF c] by (simp_all add: sender_ok_def events_ok_def Let_def)
    have later: "curTick s' \<le> curTick s' + 1" "curTick s' \<le> curTick s' + ?D"
      using now s'(3) by (auto intro!: tick_add elim: less_trans)
    have "clean ?r" by (rule clean_sent [OF c sp Cons f s' rest])
    then have "clean ?e" using later by (simp add: clean_sched)
    moreover have "flitSent Link0 orig s' = Some ?e"
      using flitSent_eq [of s' Link0 orig rest f1] s'(1) later by simp
    moreover have "packed ?e" using small by (simp add: packed_def)
    moreover have "scheduled ev s' \<longleftrightarrow> ev \<noteq> RetryTimeout Link0 \<and> scheduled ev s" for ev
      using s'(5) by (simp add: scheduled_def)
    then have "work_ok {} ?e" using w rest(1,4) by (auto simp: work_ok_def Let_def)
    ultimately show ?thesis using run by auto
  qed
qed

subsection \<open>The retry timer\<close>

lemma clean_all_acked:
  assumes c: "clean s" and h: "heap s' = heap s |` (- set (retryBuffer (link s Link0)))"
    and same: "nextPtr s \<le> nextPtr s'" "curTick s' = curTick s" "env s' = env s"
      "eventq s' = q_remove (RetryTimeout Link0) (eventq s)"
    and l0: "link s' Link0 = (link s Link0)\<lparr>clk := ck, lastAckedTimestamp := t, retryBuffer := [],
        txCredits := creditPool (link s Link0), stats := st\<rparr>"
      "clock_ok (curTick s) (clockPeriod (link s Link0)) ck"
    and l1: "link s' Link1 = (link s Link1)\<lparr>rxBitsReceived := b, rxWaitingForRetry := False,
        stats := st'\<rparr>"
  shows "clean s'"
proof -
  note parts = clean_dest [OF c]
  let ?rb = "retryBuffer (link s Link0)"
  have rb: "\<exists>g. heap s x = Some (FlitObj g)" if "x \<in> set ?rb" for x
    using that parts(3) by (auto simp: flits_ok_def Let_def)
  have pkts: "heap s' x = heap s x" if "heap s x = Some (PktObj g)" for x g
    using that rb [of x] h by (auto simp: restrict_map_def)
  then have keep: "live_req (heap s) x \<Longrightarrow> live_req (heap s') x"
    "timed (heap s) x \<Longrightarrow> timed (heap s') x" for x
    by (auto simp: live_req_def timed_def)
  have queued: "heap s' x = heap s x" if "x \<in> set (txSendQueue (link s Link0))" for x
    using that parts(3) h by (auto simp: flits_ok_def Let_def restrict_map_def)
  have inf: "in_flits s' = in_flits s"
  proof -
    have "map (\<lambda>p. originalPackets (the (flit_at (heap s') p))) (txSendQueue (link s Link0)) =
          map (\<lambda>p. originalPackets (the (flit_at (heap s) p))) (txSendQueue (link s Link0))"
      using queued by (intro map_cong) (auto simp: flit_at_def)
    then show ?thesis using l0 by (simp add: in_flits_def del: map_eq_conv)
  qed
  have "tlps_ok s'"
    using inf same l0(1) l1 keep by (intro tlps_ok_keep [OF parts(1)]) (simp_all add: in_packer_def)
  moreover have "flits_ok s'"
    using parts(3) queued same h l0(1) by (auto simp: flits_ok_def Let_def restrict_map_def)
  moreover have "sender_ok s'" "receiver_ok s'" "events_ok s'"
    using parts same l0 l1
    by (simp_all add: sender_ok_def receiver_ok_def events_ok_def Let_def q_sorted_remove
        distinct_q_remove)
  ultimately show ?thesis by (simp add: clean_def)
qed

lemma processRetryTimeout_clean:
  assumes c: "clean s" and small: "packed s" and w: "work_ok {RetryTimeout Link0} s"
  shows "\<exists>s'. processRetryTimeout (tx_sendTimingReq Link0) Link0 s = Some s' \<and>
    clean s' \<and> packed s' \<and> work_ok {} s'"
proof (cases "retryBuffer (link s Link0)")
  case Nil
  then have "processRetryTimeout (tx_sendTimingReq Link0) Link0 s = Some s"
    using clean_dest(2) [OF c] by (simp add: processRetryTimeout_def sender_ok_def Let_def)
  moreover have "work_ok {} s" using w Nil by (simp add: work_ok_def Let_def)
  ultimately show ?thesis using c small by blast
next
  case (Cons p ps)
  note parts = clean_dest [OF c]
  let ?D = "retryTimeoutDelay (link s Link0)" and ?last = "lastProcessedTimestamp (link s Link1)"
  obtain f where f: "heap s p = Some (FlitObj f)" "timestamp f \<le> ?last"
    using parts(3) Cons by (auto simp: flits_ok_def Let_def)
  have now: "curTick s < 2 ^ 62" "?D < 2 ^ 62" "\<not> txBlocked (link s Link0)"
    using parts(2,5) by (simp_all add: sender_ok_def events_ok_def Let_def)
  then have later: "curTick s \<le> curTick s + ?D" by (auto intro!: tick_add elim: less_trans)
  show ?thesis
  proof (cases "curTick s \<ge> timestamp f + ?D")
    case False
    let ?e = "sched (RetryTimeout Link0) (timestamp f + ?D) s"
    have "processRetryTimeout (tx_sendTimingReq Link0) Link0 s = Some ?e"
      using Cons f False now by (simp add: processRetryTimeout_def schedule_unless_eq)
    moreover have "clean ?e" using c False by (intro clean_sched) auto
    moreover have "packed ?e" "work_ok {} ?e"
      using small w by (auto simp: packed_def work_ok_def Let_def)
    ultimately show ?thesis by blast
  next
    case True
    obtain v where v: "probeClone (curTick s) f = Some v" "timestamp v = timestamp f"
      "isRetransmission v" "cmd v = WriteReq" using probeClone_eq by metis
    define edge where "edge = link_clockEdge Link0 8 s"
    define ck where "ck = update (curTick s) (clockPeriod (link s Link0)) (clk (link s Link0))"
    have s1: "snd edge = upd_link Link0 (\<lambda>l. l\<lparr>clk := ck\<rparr>) s"
      by (simp add: edge_def link_clockEdge_def clockEdge_def ck_def Let_def)
    have ck: "clock_ok (curTick s) (clockPeriod (link s Link0)) ck"
      unfolding ck_def using parts(5)
      by (intro clock_ok_update) (auto simp: events_ok_def word_less_nat_alt)
    define u where "u = v\<lparr>headerDelay := ucast (ucast (headerDelay v) + (fst edge - curTick s))\<rparr>"
    define s2 where "s2 = (snd edge)\<lparr>heap := (heap s)(nextPtr s \<mapsto> FlitObj u),
      nextPtr := Suc (nextPtr s)\<rparr>"
    have s2 [simp]: "heap s2 = (heap s)(nextPtr s \<mapsto> FlitObj u)" "nextPtr s2 = Suc (nextPtr s)"
      "curTick s2 = curTick s" "env s2 = env s" "eventq s2 = eventq s"
      "link s2 Link1 = link s Link1" "link s2 Link0 = (link s Link0)\<lparr>clk := ck\<rparr>"
      by (simp_all add: s2_def s1)
    have fresh: "\<forall>p \<ge> nextPtr s. heap s p = None" using parts(3) by (simp add: flits_ok_def Let_def)
    have ready: "ack_ready ?last s2"
      using parts(2,3) live_ptrs(1) [OF fresh]
      by (fastforce simp: ack_ready_def all_covered_def sender_ok_def flits_ok_def Let_def)
    have away: "nextPtr s \<notin> set (retryBuffer (link s2 Link0))"
      using parts(3) fresh by (fastforce simp: flits_ok_def Let_def)
    show ?thesis
    proof (rule recvFlit_duplicate [of s2 "nextPtr s" u "sendReq mem_recvTimingReq"])
      fix s3 st
      assume run: "recvFlit (sendReq mem_recvTimingReq) (rx_sendTimingResp Link1) Link1 (nextPtr s)
          u s2 = Some (True, s3)"
        and s3: "curTick s3 = curTick s2" "nextPtr s3 = Suc (nextPtr s2)" "env s3 = env s2"
          "eventq s3 = q_remove (RetryTimeout Link0) (eventq s2)"
          "link s3 Link0 = link (acked Link0 (lastProcessedTimestamp (link s2 Link1)) s2) Link0"
          "link s3 Link1 = (link s2 Link1)\<lparr>rxBitsReceived := rxBitsReceived (link s2 Link1) + 2048,
             rxWaitingForRetry := False, stats := st\<rparr>"
          "heap s3 = (heap s2 |` (- set (retryBuffer (link s2 Link0))))(nextPtr s := None)"
      define s4 where "s4 = upd_link Link0 (upd_stats
        (\<lambda>st. st\<lparr>totalRetransmissions := totalRetransmissions st + 1\<rparr>)) s3"
      have "clean s4"
      proof (rule clean_all_acked [OF c _ _ _ _ _ _ ck])
        show "heap s4 = heap s |` (- set (retryBuffer (link s Link0)))"
          using s3(7) fresh away by (auto simp: s4_def fun_eq_iff restrict_map_def)
        show "link s4 Link0 = (link s Link0)\<lparr>clk := ck, lastAckedTimestamp := ?last,
            retryBuffer := [], txCredits := creditPool (link s Link0), stats := stats (link s4 Link0)\<rparr>"
          using s3(5) all_credits [OF parts(2)] parts(2)
          by (simp add: s4_def acked_def upd_stats_def sender_ok_def Let_def)
      qed (use s3 in \<open>simp_all add: s4_def\<close>)
      moreover have s4: "curTick s4 = curTick s" "retryTimeoutDelay (link s4 Link0) = ?D"
        "txPacker (link s4 Link0) = txPacker (link s Link0)"
        "txSendQueue (link s4 Link0) = txSendQueue (link s Link0)"
        "tlpBlocked (link s4 Link1) = tlpBlocked (link s Link1)"
        "tlpSendQueue (link s4 Link1) = tlpSendQueue (link s Link1)"
        "scheduled ev s4 \<longleftrightarrow> ev \<noteq> RetryTimeout Link0 \<and> scheduled ev s" for ev
        using s3 by (simp_all add: s4_def acked_def scheduled_def)
      moreover have "processRetryTimeout (tx_sendTimingReq Link0) Link0 s =
          schedule_unless (RetryTimeout Link0) (curTick s4 + retryTimeoutDelay (link s4 Link0)) s4"
      proof -
        have "link_clockEdge Link0 8 s = (fst edge, snd edge)" by (simp add: edge_def)
        moreover have "new_obj (FlitObj u) (snd edge) = (nextPtr s, s2)"
          by (simp add: new_obj_def s2_def s1)
        moreover have "tx_sendTimingReq Link0 (nextPtr s) s2 = Some (True, s3)"
          using run v by (simp add: tx_sendTimingReq.simps sendReq_def rx_recvTimingReq_def u_def)
        ultimately show ?thesis using Cons f True v now
          by (simp add: processRetryTimeout_def u_def [symmetric] s1 s4_def)
      qed
      ultimately have "processRetryTimeout (tx_sendTimingReq Link0) Link0 s =
          Some (sched (RetryTimeout Link0) (curTick s + ?D) s4)"
        and "clean (sched (RetryTimeout Link0) (curTick s + ?D) s4)"
        using later by (simp_all add: schedule_unless_eq clean_sched)
      moreover have "work_ok {} (sched (RetryTimeout Link0) (curTick s + ?D) s4)"
        "packed (sched (RetryTimeout Link0) (curTick s + ?D) s4)"
        using w small s4 by (auto simp: work_ok_def packed_def Let_def)
      ultimately show ?thesis by blast
    qed (use v f ready away parts(4) Cons in
        \<open>auto simp: u_def no_crc_error_def receiver_ok_def Let_def\<close>)
  qed
qed

subsection \<open>A request of the CPU\<close>

text \<open>The state in which \<open>recvTlp\<close> has handed the TLP to the packer.\<close>

definition admitted :: "packet \<Rightarrow> u32 \<Rightarrow> sys \<Rightarrow> sys" where
  "admitted q sz s =
     s\<lparr>nextPtr := Suc (nextPtr s),
       env := (env s)\<lparr>cpuSent := cpuSent (env s) @ [nextPtr s]\<rparr>,
       heap := (heap s)(nextPtr s \<mapsto> PktObj (pushSenderState (UcieTimerState (curTick s)) q)),
       link := (link s)(Link0 :=
         (upd_stats (\<lambda>st. st\<lparr>totalTLPsSent := totalTLPsSent st + 1\<rparr>) (link s Link0))
         \<lparr>txPacker := processIncomingTLP (nextPtr s) sz (txPacker (link s Link0))\<rparr>)\<rparr>"

lemma clean_admitted:
  assumes c: "clean s" and small: "packed s" and q: "isRequest (cmd q)" and sz: "unat sz < 2 ^ 31"
  shows "clean (admitted q sz s)"
proof -
  note parts = clean_dest [OF c]
  let ?s = "admitted q sz s"
  have fresh: "\<forall>p \<ge> nextPtr s. heap s p = None" using parts(3) by (simp add: flits_ok_def Let_def)
  have h: "heap ?s x = heap s x" if "x < nextPtr s" for x using that by (simp add: admitted_def)
  have "packer_ok (txPacker (link ?s Link0))"
    unfolding admitted_def using parts(2) small sz
    by (simp add: sender_ok_def Let_def packed_def packer_ok_incoming(1) word_less_nat_alt)
  then have "sender_ok ?s" using parts(2) by (simp add: sender_ok_def Let_def admitted_def)
  moreover have "flits_ok ?s"
    using parts(3) live_ptrs(1) [OF fresh] by (auto simp: flits_ok_def Let_def admitted_def)
  moreover have "receiver_ok ?s" "events_ok ?s"
    using parts(4,5) by (simp_all add: receiver_ok_def events_ok_def Let_def admitted_def)
  moreover have "tlps_ok ?s"
  proof -
    have "map (\<lambda>p. originalPackets (the (flit_at (heap ?s) p))) (txSendQueue (link s Link0)) =
          map (\<lambda>p. originalPackets (the (flit_at (heap s) p))) (txSendQueue (link s Link0))"
      using parts(3) live_ptrs(1) [OF fresh] h
      by (intro map_cong) (auto simp: flit_at_def flits_ok_def Let_def)
    then have inf: "in_flits ?s = in_flits s"
      by (simp add: in_flits_def admitted_def del: map_eq_conv)
    have inp: "in_packer ?s = in_packer s @ [nextPtr s]"
      by (simp add: in_packer_def admitted_def processIncomingTLP_def Let_def)
    have live: "live_req (heap ?s) x" if "live_req (heap s) x" for x
      using that h [OF live_ptrs(2) [OF fresh that]] by (simp add: live_req_def)
    have timed: "timed (heap ?s) x" if "timed (heap s) x" for x
      using that h [OF live_ptrs(3) [OF fresh that]] by (simp add: timed_def)
    have new: "timed (heap ?s) (nextPtr s)"
      using q by (simp add: timed_def admitted_def pushSenderState_def)
    have env: "cpuSent (env ?s) = cpuSent (env s) @ [nextPtr s]" "memTaken (env ?s) = memTaken (env s)"
      "link ?s Link1 = link s Link1" "nextPtr ?s = Suc (nextPtr s)"
      by (simp_all add: admitted_def)
    show ?thesis unfolding tlps_ok_def
    proof (intro conjI)
      show "cpuSent (env ?s) =
          memTaken (env ?s) @ tlpSendQueue (link ?s Link1) @ in_flits ?s @ in_packer ?s"
        using parts(1) inf inp env by (simp add: tlps_ok_def)
      show "distinct (cpuSent (env ?s))" "\<forall>p \<in> set (cpuSent (env ?s)). p < nextPtr ?s"
        using sent_distinct [OF parts(1)] sent_old [OF parts(1)] env by (auto simp: less_SucI)
      show "\<forall>p \<in> set (in_flits ?s @ in_packer ?s). timed (heap ?s) p"
        using parts(1) inf inp timed new by (auto simp: tlps_ok_def)
      show "\<forall>p \<in> set (tlpSendQueue (link ?s Link1)). live_req (heap ?s) p"
        using parts(1) env live by (simp add: tlps_ok_def)
    qed
  qed
  ultimately show ?thesis by (simp add: clean_def)
qed

lemma cpu_request_clean:
  assumes c: "clean s" and small: "packed s" and w: "work_ok {} s"
    and q: "isRequest (cmd q)" "getSize q = Some sz" "unat sz < 2 ^ 31"
    and d: "startDelayTicks (dataRate (link s Link0)) (numLanes (link s Link0)) (sz + 16) = Some d"
      "d < 2 ^ 62"
  shows "\<exists>s'. act (CpuReq q) s = Some s' \<and> clean s' \<and> packed s' \<and> work_ok {} s' \<and>
    cpuSent (env s') = cpuSent (env s) @ [nextPtr s]"
proof -
  let ?s = "admitted q sz s"
  have lt: "curTick s < 2 ^ 62" using clean_dest(5) [OF c] by (simp add: events_ok_def)
  then have later: "curTick s \<le> curTick s + d"
    using d(2) by (auto intro!: tick_add elim: less_trans)
  have "clean ?s" by (rule clean_admitted [OF c small q(1,3)])
  moreover have "work_ok {PackTlp Link0} ?s"
    using w by (simp add: work_ok_def Let_def admitted_def scheduled_def)
  ultimately obtain s' where s': "packFullFlits Link0 d ?s = Some s'" "clean s'" "packed s'"
    "work_ok {PackTlp Link0} s'" "curTick s' = curTick s" "env s' = env ?s"
    using packFullFlits_clean [of ?s d] later by (auto simp: admitted_def)
  let ?more = "\<not> scheduled (PackTlp Link0) s' \<and> stagedBytes (txPacker (link s' Link0)) > 0"
  let ?e = "if ?more then sched (PackTlp Link0) (curTick s' + d) s' else s'"
  have run: "act (CpuReq q) s = Some ?e"
  proof -
    have "linkState (link s Link0) = ACTIVE"
      using clean_dest(2) [OF c] by (simp add: sender_ok_def Let_def)
    then show ?thesis using q d s'(1,5) later
      by (simp add: new_obj_def sendReq_def rx_recvTimingReq_def recvTlp_def Let_def schedule_eq
          TLP_HEADER_BYTES_def admitted_def upd_link_def put_pkt_def)
  qed
  have "clean ?e" using s' later by (simp add: clean_sched)
  moreover have "packed ?e" "cpuSent (env ?e) = cpuSent (env s) @ [nextPtr s]"
    using s' by (simp_all add: packed_def admitted_def)
  moreover have "work_ok {} ?e"
    using s'(4) by (auto simp: work_ok_def Let_def stagedBytes_def word_gt_0)
  ultimately show ?thesis using run by blast
qed

subsection \<open>The actions of the environment\<close>

lemma clean_env:
  assumes c: "clean s" and e: "cpuSent e = cpuSent (env s)" "memTaken e = memTaken (env s)"
  shows "clean (s\<lparr>env := e\<rparr>)"
proof -
  have "tlps_ok (s\<lparr>env := e\<rparr>)"
    using e by (intro tlps_ok_keep [OF clean_dest(1) [OF c]]) (simp_all add: in_flits_def in_packer_def)
  then show ?thesis using c
    by (simp add: clean_def sender_ok_def flits_ok_def receiver_ok_def events_ok_def)
qed

text \<open>A packet that the memory has taken is no longer looked at.\<close>

lemma clean_taken:
  assumes c: "clean s" and p: "p \<in> set (memTaken (env s))" "heap s p = Some (PktObj q)"
  shows "clean (s\<lparr>heap := (heap s)(p := v)\<rparr>)" (is "clean ?s")
proof -
  note parts = clean_dest [OF c]
  have "p \<notin> set (tlpSendQueue (link s Link1) @ in_flits s @ in_packer s)"
    using p(1) sent_distinct [OF parts(1)] sent_stream [OF parts(1)]
    by (auto simp del: set_append simp: distinct_append)
  then have far: "x \<noteq> p" if "x \<in> set (tlpSendQueue (link s Link1) @ in_flits s @ in_packer s)" for x
    using that by auto
  have flit: "heap ?s x = heap s x" if "heap s x = Some (FlitObj f)" for x f
    using that p(2) by auto
  have fl: "\<exists>f. heap s x = Some (FlitObj f)" if "x \<in> set (txSendQueue (link s Link0))" for x
    using that parts(3) by (auto simp: flits_ok_def Let_def)
  have "map (\<lambda>p. originalPackets (the (flit_at (heap ?s) p))) (txSendQueue (link s Link0)) =
        map (\<lambda>p. originalPackets (the (flit_at (heap s) p))) (txSendQueue (link s Link0))"
    using fl flit by (intro map_cong refl) (metis flit_at_def)
  then have inf: "in_flits ?s = in_flits s" by (simp add: in_flits_def del: map_eq_conv)
  have "tlps_ok ?s"
    using inf far
    by (intro tlps_ok_keep [OF parts(1)]) (auto simp: in_packer_def live_req_def timed_def)
  moreover have "flits_ok ?s"
  proof -
    have "p < nextPtr s" using parts(3) p(2) live_ptrs(1) [of s p] by (auto simp: flits_ok_def Let_def)
    then show ?thesis using parts(3) p(2) by (auto simp: flits_ok_def Let_def)
  qed
  ultimately show ?thesis using c
    by (simp add: clean_def sender_ok_def receiver_ok_def events_ok_def)
qed

lemma mem_response_clean:
  assumes c: "clean s" and small: "packed s" and w: "work_ok {} s"
    and p: "p \<in> set (memTaken (env s))" "heap s p = Some (PktObj q)"
    and q: "isRequest (cmd q)" "needsResponse (cmd q)"
  shows "\<exists>s'. act (MemResp p) s = Some s' \<and> clean s' \<and> packed s' \<and> work_ok {} s' \<and>
    cpuSent (env s') = cpuSent (env s)"
proof -
  let ?q = "q\<lparr>cmd := responseCommand (cmd q), flags := clear EXPRESS_SNOOP (flags q)\<rparr>"
  let ?s = "put_pkt p ?q s" and ?e = "env s"
  let ?t = "?s\<lparr>env := ?e\<lparr>cpuRoom := cpuRoom ?e - 1, cpuTaken := cpuTaken ?e @ [p]\<rparr>\<rparr>"
  let ?r = "if cpuRoom ?e = 0 then ?s else ?t"
  have resp: "isResponse (responseCommand (cmd q))"
    using q(2) by (cases "cmd q") (simp_all add: cmd_table)
  have c': "clean ?s" unfolding put_pkt_def by (rule clean_taken [OF c p])
  then have "clean ?t" by (intro clean_env) simp_all
  with c' have "clean ?r" by simp
  moreover have "act (MemResp p) s = Some ?r"
    using p(2) q resp
    by (simp add: makeResponse_def sendResp_def tx_recvTimingResp_def rx_sendTimingResp.simps
        cpu_recvTimingResp_def)
  moreover have "packed ?r" "work_ok {} ?r" "cpuSent (env ?r) = cpuSent (env s)"
    using small w by (simp_all add: packed_def work_ok_def Let_def scheduled_def)
  ultimately show ?thesis by blast
qed

text \<open>Draining \<open>Link1\<close> after a retry of the memory.\<close>

lemma drained_sel [simp]:
  "heap (drained i s) = heap s" "nextPtr (drained i s) = nextPtr s"
  "eventq (drained i s) = eventq s" "curTick (drained i s) = curTick s"
  "cpuSent (env (drained i s)) = cpuSent (env s)" "j \<noteq> i \<Longrightarrow> link (drained i s) j = link s j"
  "txSendQueue (link (drained i s) i) = txSendQueue (link s i)"
  "retryBuffer (link (drained i s) i) = retryBuffer (link s i)"
  "txPacker (link (drained i s) i) = txPacker (link s i)"
  "txBlocked (link (drained i s) i) = txBlocked (link s i)"
  "rxWaitingForRetry (link (drained i s) i) = rxWaitingForRetry (link s i)"
  "errorRate (link (drained i s) i) = errorRate (link s i)"
  "lastProcessedTimestamp (link (drained i s) i) = lastProcessedTimestamp (link s i)"
  "rxFlitCounter (link (drained i s) i) = rxFlitCounter (link s i)"
  "clk (link (drained i s) i) = clk (link s i)"
  "clockPeriod (link (drained i s) i) = clockPeriod (link s i)"
  "scheduled ev (drained i s) = scheduled ev s"
  by (simp_all add: drained_def Let_def scheduled_def)

lemma drained_flow:
  "\<not> tlpBlocked (link (drained i s) i) \<Longrightarrow> tlpSendQueue (link (drained i s) i) = []"
  by (auto simp: drained_def Let_def split: if_splits)

lemma scheduled_upd_link: "scheduled ev (upd_link i f s) = scheduled ev s"
  by (simp add: scheduled_def)

lemma clean_drained:
  assumes c: "clean s"
  shows "clean (drained Link1 s)" (is "clean ?s")
proof -
  note parts = clean_dest [OF c]
  obtain m where m: "memTaken (env ?s) = memTaken (env s) @ m"
    "m @ tlpSendQueue (link ?s Link1) = tlpSendQueue (link s Link1)"
    by (rule drained_stream)
  have inf: "in_flits ?s = in_flits s" "in_packer ?s = in_packer s"
    by (simp_all add: in_flits_def in_packer_def)
  have "tlps_ok ?s" unfolding tlps_ok_def
  proof (intro conjI)
    show "cpuSent (env ?s) =
        memTaken (env ?s) @ tlpSendQueue (link ?s Link1) @ in_flits ?s @ in_packer ?s"
      unfolding drained_sel(5) sent_stream [OF parts(1)] m(1) inf m(2) [symmetric] by simp
    have "set (tlpSendQueue (link ?s Link1)) \<subseteq> set (tlpSendQueue (link s Link1))"
      by (simp add: m(2) [symmetric])
    then show "\<forall>p \<in> set (tlpSendQueue (link ?s Link1)). live_req (heap ?s) p"
      using parts(1) by (auto simp: tlps_ok_def)
    show "\<forall>p \<in> set (in_flits ?s @ in_packer ?s). timed (heap ?s) p"
      using parts(1) inf by (simp add: tlps_ok_def)
  qed (use sent_distinct [OF parts(1)] sent_old [OF parts(1)] in simp_all)
  then show ?thesis using c
    by (simp add: clean_def sender_ok_def flits_ok_def receiver_ok_def events_ok_def Let_def)
qed

lemma mem_retry_clean:
  assumes c: "clean s" and small: "packed s" and w: "work_ok {} s"
  shows "\<exists>s'. act MemRetry s = Some s' \<and> clean s' \<and> packed s' \<and> work_ok {} s' \<and>
    cpuSent (env s') = cpuSent (env s)"
proof -
  note parts = clean_dest [OF c]
  define s1 where "s1 = upd_link Link1 (\<lambda>l. l\<lparr>txBlocked := False, tlpBlocked := False\<rparr>) s"
  define ck where "ck = update (curTick s) (clockPeriod (link s Link1)) (clk (link s Link1))"
  define t where "t = fst (link_clockEdge Link1 1 s1)"
  define s2 where "s2 = (if scheduled (SendFlit Link1) s1 then s1
    else sched (SendFlit Link1) t (upd_link Link1 (\<lambda>l. l\<lparr>clk := ck\<rparr>) s1))"
  have per: "0 < clockPeriod (link s Link1)" "clockPeriod (link s Link1) < 2 ^ 32"
    "curTick s < 2 ^ 62" and ok: "clock_ok (curTick s) (clockPeriod (link s Link1)) (clk (link s Link1))"
    using parts(5) by (simp_all add: events_ok_def)
  have room: "unat (curTick s) + (unat (1 :: u64) + 1) * unat (clockPeriod (link s Link1)) < 2 ^ 64"
    "unat (curTick s) + unat (clockPeriod (link s Link1)) < 2 ^ 64"
    using per by (simp_all add: word_less_nat_alt)
  have edge: "link_clockEdge Link1 1 s1 = (t, upd_link Link1 (\<lambda>l. l\<lparr>clk := ck\<rparr>) s1)"
    by (simp add: t_def link_clockEdge_def clockEdge_def ck_def Let_def s1_def)
  have "unat t = unat (tick ck) + unat (1 :: u64) * unat (clockPeriod (link s Link1))"
    using unat_clockEdge [OF per(1) room(1) ok]
    by (simp add: t_def link_clockEdge_def ck_def s1_def split_beta)
  then have t: "curTick s \<le> t"
    using update_window(1) [OF per(1) room(2) ok] by (simp add: word_le_nat_alt ck_def)
  have keep: "clean (upd_link Link1 (\<lambda>l. l\<lparr>txBlocked := False, tlpBlocked := False, clk := k\<rparr>) s)"
    if "clock_ok (curTick s) (clockPeriod (link s Link1)) k" for k
  proof -
    have "tlps_ok (upd_link Link1 (\<lambda>l. l\<lparr>txBlocked := False, tlpBlocked := False, clk := k\<rparr>) s)"
      by (rule tlps_ok_keep [OF parts(1)]) (simp_all add: in_flits_def in_packer_def)
    then show ?thesis using c that
      by (simp add: clean_def sender_ok_def flits_ok_def receiver_ok_def events_ok_def Let_def)
  qed
  have "clean s1" using keep [OF ok] by (simp add: s1_def upd_link_def)
  moreover have "clean (upd_link Link1 (\<lambda>l. l\<lparr>clk := ck\<rparr>) s1)"
    using keep [of ck] clock_ok_update [OF per(1) room(2) ok] by (simp add: s1_def ck_def upd_link_def)
  ultimately have c2: "clean s2" using t by (simp add: s2_def clean_sched s1_def)
  have "drainTxSendQueue Link1 s1 = Some s2"
    using edge t by (simp add: drainTxSendQueue_def s2_def schedule_eq s1_def scheduled_def)
  moreover have "drainTlpSendQueue (sendReq mem_recvTimingReq) Link1 s2 = Some (drained Link1 s2)"
    using clean_dest(1) [OF c2] by (intro drainTlpSendQueue_mem) (simp add: tlps_ok_def)
  ultimately have "act MemRetry s = Some (drained Link1 s2)"
    by (simp add: tx_recvReqRetry_def tx_sendTimingReq.simps s1_def)
  moreover have "clean (drained Link1 s2)" by (rule clean_drained [OF c2])
  moreover have "packed (drained Link1 s2)" "cpuSent (env (drained Link1 s2)) = cpuSent (env s)"
    using small by (simp_all add: packed_def s2_def s1_def)
  moreover have "scheduled ev s \<Longrightarrow> scheduled ev s2" and "link s2 Link0 = link s Link0" for ev
    by (simp_all add: s2_def s1_def scheduled_upd_link)
  then have "work_ok {} (drained Link1 s2)"
    using w drained_flow [of Link1 s2] by (auto simp: work_ok_def Let_def)
  ultimately show ?thesis by blast
qed

lemma cpu_resp_retry_clean:
  assumes c: "clean s" and small: "packed s" and w: "work_ok {} s"
  shows "\<exists>s'. act CpuRespRetry s = Some s' \<and> clean s' \<and> packed s' \<and> work_ok {} s' \<and>
    cpuSent (env s') = cpuSent (env s)"
proof -
  note parts = clean_dest [OF c]
  let ?s = "upd_link Link0 (\<lambda>l. l\<lparr>tlpBlocked := False\<rparr>) s"
  have "tlps_ok ?s"
    by (rule tlps_ok_keep [OF parts(1)]) (simp_all add: in_flits_def in_packer_def)
  then have "clean ?s" using c
    by (simp add: clean_def sender_ok_def flits_ok_def receiver_ok_def events_ok_def Let_def)
  moreover have "act CpuRespRetry s = Some ?s"
    using parts(2) by (simp add: rx_recvRespRetry_def drainTlpSendQueue.simps [of _ _ ?s]
        sender_ok_def Let_def)
  moreover have "packed ?s" "work_ok {} ?s"
    using small w by (simp_all add: packed_def work_ok_def Let_def scheduled_def)
  ultimately show ?thesis by simp
qed

subsection \<open>Time and events\<close>

lemma clean_later:
  assumes c: "clean s" and t: "curTick s \<le> t" "t < 2 ^ 62"
    and q: "q_sorted q" "distinct (map snd q)" "\<forall>x \<in> set q. t \<le> fst (fst x)"
  shows "clean (s\<lparr>eventq := q, curTick := t\<rparr>)" (is "clean ?s")
proof -
  note parts = clean_dest [OF c]
  have "tlps_ok ?s"
    by (rule tlps_ok_keep [OF parts(1)]) (simp_all add: in_flits_def in_packer_def)
  moreover have "receiver_ok ?s" using parts(4) t by (auto simp: receiver_ok_def Let_def)
  moreover have "events_ok ?s" using parts(5) t q by (auto simp: events_ok_def intro: clock_ok_later)
  ultimately show ?thesis using c by (simp add: clean_def sender_ok_def flits_ok_def)
qed

text \<open>The handlers of the receiving end of the link have nothing to do.\<close>

lemma process_Link1:
  assumes "clean s"
  shows "process (PackTlp Link1) s = Some s" "process (SendFlit Link1) s = Some s"
    "process (RetryTimeout Link1) s = Some s"
  using clean_dest(4) [OF assms]
  by (simp_all add: receiver_ok_def Let_def processPackTlp_def forceFlush_def hasStagedData_def
      processSendFlit_def processRetryTimeout_def upd_link_def)

lemma serve_clean:
  assumes c: "clean s" and small: "packed s" and w: "work_ok {} s"
    and q: "eventq s = ((t, pri), ev) # q" and t: "t < 2 ^ 62"
    and sp: "ev = SendFlit Link0 \<longrightarrow> spaced (s\<lparr>curTick := t\<rparr>)"
  shows "\<exists>s'. act Serve s = Some s' \<and> clean s' \<and> packed s' \<and> work_ok {} s'"
proof -
  let ?s = "s\<lparr>eventq := q, curTick := t\<rparr>"
  have sorted: "q_sorted (((t, pri), ev) # q)" and dist: "distinct (map snd (((t, pri), ev) # q))"
    and now: "curTick s \<le> t"
    using clean_dest(5) [OF c] q by (simp_all add: events_ok_def)
  have "t \<le> fst (fst x)" if "x \<in> set q" for x
    using q_head_least [OF sorted that] by (cases x) (auto simp: less_eq_prod_def)
  then have clean: "clean ?s"
    using sorted dist now t by (intro clean_later [OF c]) (auto simp: q_sorted_def)
  have rest: "packed ?s" "work_ok {ev} ?s" "spaced ?s" if "ev = SendFlit Link0"
    using small w q sp that
    by (auto simp: packed_def work_ok_def Let_def scheduled_def q_member_def spaced_def)
  have rest': "packed ?s" "work_ok {ev} ?s"
    using small w q by (auto simp: packed_def work_ok_def Let_def scheduled_def q_member_def)
  have run: "act Serve s = process ev ?s" using q by simp
  show ?thesis
  proof (cases ev)
    case (PackTlp i)
    then show ?thesis
      using run rest' clean processPackTlp_clean [OF clean] process_Link1(1) [OF clean]
      by (cases i) (auto simp: work_ok_def)
  next
    case (SendFlit i)
    then show ?thesis
      using run rest rest' clean processSendFlit_clean [OF clean] process_Link1(2) [OF clean]
      by (cases i) (auto simp: work_ok_def)
  next
    case (RetryTimeout i)
    then show ?thesis
      using run rest' clean processRetryTimeout_clean [OF clean] process_Link1(3) [OF clean]
      by (cases i) (auto simp: work_ok_def)
  qed
qed

end
