(* ===== verification/Runs.thy ===== *)
theory Runs
  imports Prelude
begin

text \<open>
  Runs of a system whose actions may abort: an action is a function from states to an
  optional next state, and the environment chooses the actions under a guard. The
  locale \<open>guarded_system\<close> is the interface between a component that proves an
  invariant of its actions and the theorems about whole runs; each system of the
  development that has a step function interprets it.
\<close>

section \<open>Runs\<close>

fun exec :: "('a \<Rightarrow> 's \<Rightarrow> 's option) \<Rightarrow> 'a list \<Rightarrow> 's \<Rightarrow> 's option" where
  "exec act [] s = Some s"
| "exec act (a # as) s = act a s \<bind> exec act as"

text \<open>Every action of the run meets its guard at the moment it is taken.\<close>

fun admissible :: "('a \<Rightarrow> 's \<Rightarrow> bool) \<Rightarrow> ('a \<Rightarrow> 's \<Rightarrow> 's option) \<Rightarrow> 'a list \<Rightarrow> 's \<Rightarrow> bool" where
  "admissible guard act [] s = True"
| "admissible guard act (a # as) s =
     (guard a s \<and> (case act a s of None \<Rightarrow> True | Some s' \<Rightarrow> admissible guard act as s'))"

lemma exec_append:
  "exec act (as @ bs) s = exec act as s \<bind> exec act bs"
  by (induction as arbitrary: s) (auto split: bind_splits)

section \<open>Invariants of guarded systems\<close>

locale guarded_system =
  fixes act :: "'a \<Rightarrow> 's \<Rightarrow> 's option"
    and guard :: "'a \<Rightarrow> 's \<Rightarrow> bool"
    and inv :: "'s \<Rightarrow> bool"
  assumes step: "inv s \<Longrightarrow> guard a s \<Longrightarrow> \<exists>s'. act a s = Some s' \<and> inv s'"
begin

lemma exec_total:
  assumes "inv s" and "admissible guard act as s"
  shows "\<exists>s'. exec act as s = Some s' \<and> inv s'"
  using assms
proof (induction as arbitrary: s)
  case (Cons a as)
  then obtain s' where s': "act a s = Some s'" "inv s'" using step by force
  with Cons.prems have "admissible guard act as s'" by simp
  with Cons.IH [OF s'(2)] s'(1) show ?case by simp
qed simp

lemma exec_inv:
  assumes "inv s" and "admissible guard act as s" and "exec act as s = Some s'"
  shows "inv s'"
  using exec_total [OF assms(1,2)] assms(3) by simp

end

section \<open>Refinement\<close>

text \<open>A guarded system whose actions implement actions on an abstract state.\<close>

locale refined_system = guarded_system +
  fixes abs :: "'s \<Rightarrow> 'b"
    and spec :: "'a \<Rightarrow> 'b \<Rightarrow> 'b"
  assumes simulates: "inv s \<Longrightarrow> guard a s \<Longrightarrow> act a s = Some s' \<Longrightarrow> abs s' = spec a (abs s)"
begin

lemma exec_refines:
  assumes "inv s" and "admissible guard act as s"
  shows "\<exists>s'. exec act as s = Some s' \<and> inv s' \<and> abs s' = fold spec as (abs s)"
  using assms
proof (induction as arbitrary: s)
  case (Cons a as)
  then obtain s' where s': "act a s = Some s'" "inv s'" "abs s' = spec a (abs s)"
    using step simulates by force
  with Cons.prems have "admissible guard act as s'" by simp
  with Cons.IH [OF s'(2)] s'(1,3) show ?case by simp
qed simp

end

end
