(* ===== verification/UcieReach.thy ===== *)
theory UcieReach
  imports UcieClean Runs "HOL-Library.Sublist"
begin

text \<open>
  Whole runs of the two links on a clean channel: what the theorems of
  \<open>UcieClean\<close> about single handlers give for every sequence of events and calls of
  the environment.
\<close>

section \<open>Guards\<close>

text \<open>
  When the environment may take an action: events are served in the order of the
  queue and no two flits are sent in the same tick, time does not run past the next
  event nor past the horizon of \<open>2^62\<close> ticks, the CPU sends requests that have a
  size, and the memory answers what it has taken.
\<close>

fun enabled :: "action \<Rightarrow> sys \<Rightarrow> bool" where
  "enabled Serve s =
     (case eventq s of [] \<Rightarrow> False
      | ((t, _), ev) # _ \<Rightarrow> t < 2 ^ 62 \<and> (ev = SendFlit Link0 \<longrightarrow> spaced (s\<lparr>curTick := t\<rparr>)))"
| "enabled (Advance t) s =
     (curTick s \<le> t \<and> t < 2 ^ 62 \<and> (\<forall>x \<in> set (eventq s). t \<le> fst (fst x)))"
| "enabled (CpuReq q) s =
     (isRequest (cmd q) \<and>
      (case getSize q of None \<Rightarrow> False
       | Some sz \<Rightarrow> unat sz < 2 ^ 31 \<and>
         (case startDelayTicks (dataRate (link s Link0)) (numLanes (link s Link0)) (sz + 16) of
            None \<Rightarrow> False | Some d \<Rightarrow> d < 2 ^ 62)))"
| "enabled (MemResp p) s =
     (p \<in> set (memTaken (env s)) \<and>
      (case heap s p of Some (PktObj q) \<Rightarrow> isRequest (cmd q) \<and> needsResponse (cmd q) | _ \<Rightarrow> False))"
| "enabled (MemGrant n) s = True"
| "enabled MemRetry s = True"
| "enabled (CpuGrant n) s = True"
| "enabled CpuRespRetry s = True"
| "enabled (CpuFree p) s =
     (p \<in> set (memTaken (env s)) \<and> (case heap s p of Some (PktObj _) \<Rightarrow> True | _ \<Rightarrow> False))"

text \<open>The configurations: at least two credits, no injected errors, a running clock.\<close>

definition config_ok :: "ucie_params \<Rightarrow> ucie_params \<Rightarrow> bool" where
  "config_ok p0 p1 \<longleftrightarrow> 2 \<le> credit_pool p0 \<and> retry_timeout p0 < 2 ^ 62 \<and> error_rate p1 \<le> 0 \<and>
     0 < clk_period p0 \<and> clk_period p0 < 2 ^ 32 \<and> 0 < clk_period p1 \<and> clk_period p1 < 2 ^ 32"

definition clean_inv :: "sys \<Rightarrow> bool" where
  "clean_inv s \<longleftrightarrow> clean s \<and> packed s \<and> work_ok {} s"

lemma init_clean:
  assumes "sys_init p0 p1 = Some s" and "config_ok p0 p1"
  shows "clean_inv s"
  using assms
  by (auto simp: sys_init_def init_def mkLink_def packer_init_def clean_inv_def clean_defs
      config_ok_def work_ok_def packed_def in_flits_def in_packer_def packer_ok_def q_sorted_def
      clock_ok_init split: bind_splits if_splits)

lemma enabled_step:
  assumes "clean_inv s" and "enabled a s"
  shows "\<exists>s'. act a s = Some s' \<and> clean_inv s'"
proof -
  have c: "clean s" "packed s" "work_ok {} s" using assms(1) by (simp_all add: clean_inv_def)
  show ?thesis unfolding clean_inv_def
  proof (cases a)
    case Serve
    then obtain t pri ev q where "eventq s = ((t, pri), ev) # q" "t < 2 ^ 62"
      "ev = SendFlit Link0 \<longrightarrow> spaced (s\<lparr>curTick := t\<rparr>)"
      using assms(2) by (auto split: list.splits)
    from serve_clean [OF c this] Serve show "\<exists>s'. act a s = Some s' \<and> clean s' \<and> packed s' \<and> work_ok {} s'"
      by blast
  next
    case (Advance t)
    have "clean (s\<lparr>eventq := eventq s, curTick := t\<rparr>)"
      using assms(2) Advance clean_dest(5) [OF c(1)]
      by (intro clean_later [OF c(1)]) (auto simp: events_ok_def)
    then show "\<exists>s'. act a s = Some s' \<and> clean s' \<and> packed s' \<and> work_ok {} s'"
      using Advance c by (simp add: packed_def work_ok_def scheduled_def Let_def)
  next
    case (CpuReq q)
    then obtain sz d where q: "isRequest (cmd q)" "getSize q = Some sz" "unat sz < 2 ^ 31"
      "startDelayTicks (dataRate (link s Link0)) (numLanes (link s Link0)) (sz + 16) = Some d"
      "d < 2 ^ 62"
      using assms(2) by (auto split: option.splits)
    from cpu_request_clean [OF c q] CpuReq
    show "\<exists>s'. act a s = Some s' \<and> clean s' \<and> packed s' \<and> work_ok {} s'" by blast
  next
    case (MemResp p)
    then obtain q where "p \<in> set (memTaken (env s))" "heap s p = Some (PktObj q)"
      "isRequest (cmd q)" "needsResponse (cmd q)"
      using assms(2) by (auto split: option.splits obj.splits)
    from mem_response_clean [OF c this] MemResp
    show "\<exists>s'. act a s = Some s' \<and> clean s' \<and> packed s' \<and> work_ok {} s'" by blast
  next
    case (MemGrant n)
    have "clean (s\<lparr>env := (env s)\<lparr>memRoom := n\<rparr>\<rparr>)" by (rule clean_env [OF c(1)]) simp_all
    then show "\<exists>s'. act a s = Some s' \<and> clean s' \<and> packed s' \<and> work_ok {} s'"
      using MemGrant c by (simp add: packed_def work_ok_def scheduled_def Let_def)
  next
    case MemRetry
    from mem_retry_clean [OF c] MemRetry
    show "\<exists>s'. act a s = Some s' \<and> clean s' \<and> packed s' \<and> work_ok {} s'" by blast
  next
    case (CpuGrant n)
    have "clean (s\<lparr>env := (env s)\<lparr>cpuRoom := n\<rparr>\<rparr>)" by (rule clean_env [OF c(1)]) simp_all
    then show "\<exists>s'. act a s = Some s' \<and> clean s' \<and> packed s' \<and> work_ok {} s'"
      using CpuGrant c by (simp add: packed_def work_ok_def scheduled_def Let_def)
  next
    case CpuRespRetry
    from cpu_resp_retry_clean [OF c] CpuRespRetry
    show "\<exists>s'. act a s = Some s' \<and> clean s' \<and> packed s' \<and> work_ok {} s'" by blast
  next
    case (CpuFree p)
    then obtain q where p: "p \<in> set (memTaken (env s))" "heap s p = Some (PktObj q)"
      using assms(2) by (auto split: option.splits obj.splits)
    from clean_taken [OF c(1) p, of None] CpuFree p c
    show "\<exists>s'. act a s = Some s' \<and> clean s' \<and> packed s' \<and> work_ok {} s'"
      by (simp add: delete_obj_def packed_def work_ok_def scheduled_def Let_def)
  qed
qed

interpretation clean_sys: guarded_system act enabled clean_inv
  by unfold_locales (rule enabled_step)

section \<open>A concrete run\<close>

text \<open>The default parameters of \<open>UcieLink.py\<close> with a 2 GHz clock and error injection
  switched off, and a 64-byte write.\<close>

definition default_params :: ucie_params where
  "default_params = \<lparr>data_rate = 4, num_lanes = 16, phys_delay = 2000, credit_pool = 32,
     error_rate = 0, retry_timeout = 25000, clk_period = 500\<rparr>"

definition write64 :: packet where
  "write64 = the (mkPacket (mkRequest 0 64 64 0 0) WriteReq)"

lemma write64_sel: "getSize write64 = Some 64" "cmd write64 = WriteReq" "senderState write64 = []"
  by code_simp+

lemma default_delay: "startDelayTicks 4 16 80 = Some 26500"
  by code_simp

lemmas demo_simps = run_simps default_params_def write64_sel default_delay spaced_def

lemma demo_run:
  obtains s0 s where "sys_init default_params default_params = Some s0"
    and "admissible enabled act [MemGrant 9, CpuReq write64, Serve, Serve, Serve, Serve] s0"
    and "exec act [MemGrant 9, CpuReq write64, Serve, Serve, Serve, Serve] s0 = Some s"
    and "memTaken (env s) = [0]" and "cpuSent (env s) = [0]" and "eventq s = []"
    and "\<not> tlpBlocked (link s Link1)"
  by (simp add: demo_simps)

section \<open>Properties\<close>

text \<open>
  C1: On a clean channel (no injected errors, at least two credits, running clocks) no
  admissible run aborts, and in every state it reaches the memory has taken a prefix of the
  TLPs that the CPU has sent: every TLP is delivered at most once, in order, and none is
  skipped. A run is admissible when its actions are enabled: no two flits are sent in one tick,
  ticks stay below \<open>2^62\<close>, and the CPU and the memory keep their side of the protocol.
\<close>

theorem clean_channel_delivery:
  assumes "sys_init p0 p1 = Some s0" and "config_ok p0 p1" and "admissible enabled act as s0"
  shows "\<exists>s. exec act as s0 = Some s \<and> prefix (memTaken (env s)) (cpuSent (env s)) \<and>
    distinct (cpuSent (env s))"
proof -
  obtain s where s: "exec act as s0 = Some s" "clean_inv s"
    using clean_sys.exec_total [OF init_clean [OF assms(1,2)] assms(3)] by blast
  then have "tlps_ok s" by (simp add: clean_inv_def clean_def)
  then show ?thesis using s(1) sent_stream [of s] sent_distinct [of s] by auto
qed

theorem clean_channel_delivery_witness:
  "\<exists>s0 s. sys_init default_params default_params = Some s0 \<and>
     exec act [MemGrant 9, CpuReq write64, Serve, Serve, Serve, Serve] s0 = Some s \<and>
     memTaken (env s) = [0] \<and> prefix (memTaken (env s)) (cpuSent (env s))"
proof -
  have ok: "config_ok default_params default_params"
    by (simp add: config_ok_def default_params_def)
  obtain s0 s where r: "sys_init default_params default_params = Some s0"
    "admissible enabled act [MemGrant 9, CpuReq write64, Serve, Serve, Serve, Serve] s0"
    "exec act [MemGrant 9, CpuReq write64, Serve, Serve, Serve, Serve] s0 = Some s"
    "memTaken (env s) = [0]"
    by (rule demo_run)
  from clean_channel_delivery [OF r(1) ok r(2)] r show ?thesis by auto
qed

text \<open>
  C2: Nothing is forgotten on a clean channel, in every admissible run: when no event is
  left and the memory is not refusing requests, the memory has taken exactly the TLPs that the CPU has sent,
  in order, no flit waits for an acknowledgement and all credits are back.
\<close>

theorem clean_channel_complete:
  assumes "sys_init p0 p1 = Some s0" and "config_ok p0 p1" and "admissible enabled act as s0"
    and "exec act as s0 = Some s" and "eventq s = []" and "\<not> tlpBlocked (link s Link1)"
  shows "memTaken (env s) = cpuSent (env s) \<and> txSendQueue (link s Link0) = [] \<and>
    retryBuffer (link s Link0) = [] \<and> txCredits (link s Link0) = creditPool (link s Link0)"
proof -
  have inv: "clean_inv s"
    by (rule clean_sys.exec_inv [OF init_clean [OF assms(1,2)] assms(3,4)])
  then have "tlps_ok s" "sender_ok s" by (simp_all add: clean_inv_def clean_def)
  moreover have idle: "txSendQueue (link s Link0) = []" "retryBuffer (link s Link0) = []"
    "currentBytes (txPacker (link s Link0)) = 0" "tlpSendQueue (link s Link1) = []"
    using inv assms(5,6) by (auto simp: clean_inv_def work_ok_def scheduled_def Let_def)
  moreover have "tlpQueue (txPacker (link s Link0)) = []"
    using \<open>sender_ok s\<close> idle(3) packer_length [of "txPacker (link s Link0)"]
    by (simp add: sender_ok_def Let_def)
  ultimately show ?thesis
    using sent_stream [of s] all_credits [of s] by (simp add: in_flits_def in_packer_def)
qed

theorem clean_channel_complete_witness:
  "\<exists>s0 s. sys_init default_params default_params = Some s0 \<and>
     exec act [MemGrant 9, CpuReq write64, Serve, Serve, Serve, Serve] s0 = Some s \<and>
     cpuSent (env s) = [0] \<and> memTaken (env s) = cpuSent (env s) \<and>
     txCredits (link s Link0) = creditPool (link s Link0)"
proof -
  have ok: "config_ok default_params default_params"
    by (simp add: config_ok_def default_params_def)
  obtain s0 s where r: "sys_init default_params default_params = Some s0"
    "admissible enabled act [MemGrant 9, CpuReq write64, Serve, Serve, Serve, Serve] s0"
    "exec act [MemGrant 9, CpuReq write64, Serve, Serve, Serve, Serve] s0 = Some s"
    "cpuSent (env s) = [0]" "eventq s = []" "\<not> tlpBlocked (link s Link1)"
    by (rule demo_run)
  from clean_channel_complete [OF r(1) ok r(2,3,5,6)] r show ?thesis by auto
qed

text \<open>
  C3: Credits are conserved on a clean channel: in every state of an admissible run the
  free credits and the unacknowledged flits of the sender add up to the credit pool, at
  most one flit is unacknowledged, and the sender is never blocked.
\<close>

theorem clean_channel_credits:
  assumes "sys_init p0 p1 = Some s0" and "config_ok p0 p1" and "admissible enabled act as s0"
    and "exec act as s0 = Some s"
  shows "unat (txCredits (link s Link0)) + length (retryBuffer (link s Link0)) =
      unat (creditPool (link s Link0)) \<and>
    length (retryBuffer (link s Link0)) \<le> 1 \<and> \<not> txBlocked (link s Link0)"
  using clean_sys.exec_inv [OF init_clean [OF assms(1,2)] assms(3,4)]
  by (simp add: clean_inv_def clean_def sender_ok_def Let_def)

theorem clean_channel_credits_witness:
  "\<exists>s0 s. sys_init default_params default_params = Some s0 \<and>
     exec act [MemGrant 9, CpuReq write64, Serve, Serve, Serve, Serve] s0 = Some s \<and>
     \<not> txBlocked (link s Link0)"
proof -
  have ok: "config_ok default_params default_params"
    by (simp add: config_ok_def default_params_def)
  obtain s0 s where r: "sys_init default_params default_params = Some s0"
    "admissible enabled act [MemGrant 9, CpuReq write64, Serve, Serve, Serve, Serve] s0"
    "exec act [MemGrant 9, CpuReq write64, Serve, Serve, Serve, Serve] s0 = Some s"
    by (rule demo_run)
  from clean_channel_credits [OF r(1) ok r(2,3)] r show ?thesis by auto
qed

end
