(* ===== verification/UcieErrors.thy ===== *)
theory UcieErrors
  imports UcieReach
begin

text \<open>
  The link when errors are injected: what the receiver does with any flit, how a CRC error
  and the negative acknowledgement make the sender replay its retry buffer, and what an
  acknowledgement retires. The last theorems show why the theorems on the clean channel ask
  for two credits and for flits in different ticks.
\<close>

section \<open>The receiver in any state\<close>

text \<open>The TLPs that the receiver has handed to the memory or is about to hand to it.\<close>

definition stream :: "sys \<Rightarrow> ptr list" where
  "stream s = memTaken (env s) @ tlpSendQueue (link s Link1)"

text \<open>Answers to the sender leave the receiver's side alone.\<close>

definition rx_same :: "sys \<Rightarrow> sys \<Rightarrow> bool" where
  "rx_same s s' \<longleftrightarrow> env s' = env s \<and> tlpSendQueue (link s' Link1) = tlpSendQueue (link s Link1) \<and>
     lastProcessedTimestamp (link s' Link1) = lastProcessedTimestamp (link s Link1) \<and>
     rxFlitCounter (link s' Link1) = rxFlitCounter (link s Link1) \<and>
     rxWaitingForRetry (link s' Link1) = rxWaitingForRetry (link s Link1) \<and>
     nextErrorAtBits (link s' Link1) = nextErrorAtBits (link s Link1)"

lemma rx_same_refl [simp]: "rx_same s s"
  by (simp add: rx_same_def)

lemma rx_same_trans: "rx_same s t \<Longrightarrow> rx_same t u \<Longrightarrow> rx_same s u"
  by (simp add: rx_same_def)

lemma rx_same_upd [simp]:
  "rx_same s (upd_link Link0 f t) = rx_same s t" "rx_same s (t\<lparr>heap := h\<rparr>) = rx_same s t"
  "rx_same s (t\<lparr>eventq := q\<rparr>) = rx_same s t" "rx_same s (t\<lparr>nextPtr := n\<rparr>) = rx_same s t"
  "rx_same s (put_flit p x t) = rx_same s t"
  "rx_same s (upd_link Link1 (upd_stats g) t) = rx_same s t"
  by (simp_all add: rx_same_def)

text \<open>Handlers that leave it alone whenever they return.\<close>

definition keeps :: "sys \<Rightarrow> sys option \<Rightarrow> bool" where
  "keeps s m \<longleftrightarrow> (\<forall>s'. m = Some s' \<longrightarrow> rx_same s s')"

lemma keeps_Some: "rx_same s t \<Longrightarrow> keeps s (Some t)"
  by (simp add: keeps_def)

lemma keeps_bind: "keeps s m \<Longrightarrow> (\<And>t. rx_same s t \<Longrightarrow> keeps s (f t)) \<Longrightarrow> keeps s (m \<bind> f)"
  by (auto simp: keeps_def Option.bind_eq_Some_conv)

lemma keeps_any: "(\<And>x. m = Some x \<Longrightarrow> keeps s (f x)) \<Longrightarrow> keeps s (m \<bind> f)"
  by (auto simp: keeps_def Option.bind_eq_Some_conv)

lemma keeps_if: "(b \<Longrightarrow> keeps s m) \<Longrightarrow> (\<not> b \<Longrightarrow> keeps s n) \<Longrightarrow> keeps s (if b then m else n)"
  by simp

lemma keeps_schedule: "rx_same s t \<Longrightarrow> keeps s (schedule ev w t)"
  by (auto simp: keeps_def schedule_def abort_simps)

lemma keeps_deschedule_if: "rx_same s t \<Longrightarrow> keeps s (deschedule_if ev t)"
  by (simp add: keeps_def deschedule_if_eq)

lemma keeps_drain: "rx_same s t \<Longrightarrow> keeps s (drainTxSendQueue Link0 t)"
  unfolding drainTxSendQueue_def link_clockEdge_def Let_def split_beta
  by (intro keeps_if keeps_schedule keeps_Some) simp_all

lemma keeps_delete: "rx_same s t \<Longrightarrow> keeps s (delete_obj p t)"
  by (auto simp: keeps_def delete_obj_def abort_simps split: option.splits)

lemma keeps_processAck: "rx_same s t \<Longrightarrow> keeps s (processAck Link0 w t)"
  unfolding processAck_def Let_def split_beta
  by (rule keeps_any, intro keeps_bind keeps_if keeps_drain keeps_deschedule_if keeps_Some keeps_any [where m = "flit_at _ _"]
      keeps_schedule) simp_all

lemma keeps_replay: "rx_same s t \<Longrightarrow> keeps s (replayFlits Link0 ps t)"
proof (induction ps arbitrary: t)
  case (Cons p ps)
  show ?case unfolding replayFlits.simps by (intro keeps_any [where m = "flit_at _ _"] Cons.IH) (use Cons.prems in simp)
qed (simp add: keeps_Some)

lemma keeps_processNak: "rx_same s t \<Longrightarrow> keeps s (processNak Link0 w t)"
  unfolding processNak_def Let_def split_beta
  by (rule keeps_any, intro keeps_bind keeps_replay keeps_drain keeps_deschedule_if) simp_all

lemma rx_same_response:
  assumes "rx_sendTimingResp Link1 p s = Some (b, s')" and "heap s p = Some (FlitObj f)"
    and "flitType f = FLIT_LEVEL_ACK \<or> flitType f = FLIT_LEVEL_NAK"
  shows "rx_same s s'"
proof -
  let ?m = "if flitType f = FLIT_LEVEL_ACK then processAck Link0 (timestamp f) s else processNak Link0 (timestamp f) s"
  have "(?m \<bind> delete_obj p) = Some s'"
    using assms
    by (auto simp: rx_sendTimingResp.simps sendResp_def tx_recvTimingResp_def Option.bind_eq_Some_conv)
  moreover have "keeps s (?m \<bind> delete_obj p)"
    by (intro keeps_bind keeps_if keeps_processAck keeps_processNak keeps_delete) simp_all
  ultimately show ?thesis by (simp add: keeps_def)
qed

lemma rx_same_answer:
  assumes "new_obj (FlitObj f) s = (p, s1)" and "rx_sendTimingResp Link1 p s1 = Some (b, s2)"
    and "flitType f = FLIT_LEVEL_ACK \<or> flitType f = FLIT_LEVEL_NAK"
  shows "rx_same s (upd_link Link1 (upd_stats g) s2)"
proof -
  have "heap s1 p = Some (FlitObj f)" "rx_same s s1"
    using assms(1) by (auto simp: new_obj_def rx_same_def)
  then have "rx_same s s2" using rx_same_response [OF assms(2) _ assms(3)] rx_same_trans by blast
  then show ?thesis by simp
qed

lemma rx_same_sendAck:
  assumes "sendAck (rx_sendTimingResp Link1) Link1 t s = Some s'"
  shows "rx_same s s'"
proof -
  obtain f where f: "newFlit (curTick s) UCIE_FLIT_SIZE_BYTES WriteResp (curTick s) FLIT_LEVEL_ACK = Some f"
    "flitType f = FLIT_LEVEL_ACK" using newFlit_eq by blast
  obtain p s1 where n: "new_obj (FlitObj (f\<lparr>timestamp := t\<rparr>)) s = (p, s1)" by fastforce
  obtain b s2 where "rx_sendTimingResp Link1 p s1 = Some (b, s2)"
    "s' = upd_link Link1 (upd_stats (\<lambda>st. st\<lparr>totalAcksSent := totalAcksSent st + 1\<rparr>)) s2"
    using assms f(1) n by (auto simp: sendAck_def Option.bind_eq_Some_conv)
  then show ?thesis using rx_same_answer [OF n] f(2) by simp
qed

lemma rx_same_sendNak:
  assumes "sendNak (rx_sendTimingResp Link1) Link1 t s = Some s'"
  shows "rx_same s s'"
proof -
  obtain f where f: "newFlit (curTick s) UCIE_FLIT_SIZE_BYTES WriteResp (curTick s) FLIT_LEVEL_NAK = Some f"
    "flitType f = FLIT_LEVEL_NAK" using newFlit_eq by blast
  obtain p s1 where n: "new_obj (FlitObj (f\<lparr>timestamp := t\<rparr>)) s = (p, s1)" by fastforce
  obtain b s2 where "rx_sendTimingResp Link1 p s1 = Some (b, s2)"
    "s' = upd_link Link1 (upd_stats (\<lambda>st. st\<lparr>totalNaksSent := totalNaksSent st + 1\<rparr>)) s2"
    using assms f(1) n by (auto simp: sendNak_def Option.bind_eq_Some_conv)
  then show ?thesis using rx_same_answer [OF n] f(2) by simp
qed

text \<open>Handing over and unpacking TLPs, whatever the pointers lead to.\<close>

definition rx_flow :: "sys \<Rightarrow> ptr list \<Rightarrow> sys \<Rightarrow> bool" where
  "rx_flow s ps s' \<longleftrightarrow> stream s' = stream s @ ps \<and>
     lastProcessedTimestamp (link s' Link1) = lastProcessedTimestamp (link s Link1) \<and>
     rxFlitCounter (link s' Link1) = rxFlitCounter (link s Link1) \<and>
     rxWaitingForRetry (link s' Link1) = rxWaitingForRetry (link s Link1)"

lemma rx_same_flow: "rx_same s s' \<Longrightarrow> rx_flow s [] s'"
  by (simp add: rx_same_def rx_flow_def stream_def)

lemma rx_flow_trans: "rx_flow s ps t \<Longrightarrow> rx_flow t qs u \<Longrightarrow> rx_flow s (ps @ qs) u"
  by (simp add: rx_flow_def)

lemma unpackTlps_flow: "unpackTlps Link1 ps s = Some s' \<Longrightarrow> rx_flow s ps s'"
proof (induction ps arbitrary: s)
  case Nil
  then show ?case by (simp add: rx_flow_def)
next
  case (Cons p ps)
  then obtain ts s1 where pop: "popSenderState_at p s = Some (ts, s1)"
    by (auto simp: Option.bind_eq_Some_conv)
  obtain s2 where s2: "unpackTlps Link1 (p # ps) s = unpackTlps Link1 ps s2" "rx_flow s1 [p] s2"
    using pop by (simp add: rx_flow_def stream_def)
  have "rx_flow s [] s1"
    using pop by (auto simp: popSenderState_at_def Option.bind_eq_Some_conv put_pkt_def put_flit_def
        rx_flow_def stream_def split: option.splits obj.splits)
  moreover have "rx_flow s2 ps s'" using Cons s2(1) by simp
  ultimately show ?case using s2(2) by (simp add: rx_flow_def)
qed

lemma drainTlpSendQueue_flow:
  "drainTlpSendQueue (sendReq mem_recvTimingReq) Link1 s = Some s' \<Longrightarrow> rx_flow s [] s'"
proof (induction "tlpSendQueue (link s Link1)" arbitrary: s)
  case Nil
  then show ?case by (auto simp: drainTlpSendQueue.simps rx_flow_def)
next
  case (Cons p ps)
  note queue = Cons.hyps(2) [symmetric]
  show ?case
  proof (cases "tlpBlocked (link s Link1)")
    case True
    then show ?thesis using Cons.prems by (simp add: drainTlpSendQueue.simps rx_flow_def)
  next
    case False
    then obtain ok s1 where r: "sendReq mem_recvTimingReq p s = Some (ok, s1)"
      using Cons.prems queue by (subst (asm) drainTlpSendQueue.simps) (auto simp: Option.bind_eq_Some_conv)
    show ?thesis
    proof (cases ok)
      case True
      define s2 where "s2 = upd_link Link1 (\<lambda>l. l\<lparr>tlpSendQueue := tl (tlpSendQueue l)\<rparr>) s1"
      have s1: "link s1 = link s" "memTaken (env s1) = memTaken (env s) @ [p]"
        using r True by (auto simp: sendReq_def mem_recvTimingReq_def Option.bind_eq_Some_conv split: if_splits)
      have "drainTlpSendQueue (sendReq mem_recvTimingReq) Link1 s2 = Some s'"
        using Cons.prems queue False r True s1(1)
        by (simp add: drainTlpSendQueue.simps [of _ _ s] s2_def)
      then have "rx_flow s2 [] s'" using Cons.hyps(1) [of s2] queue s1(1) by (simp add: s2_def)
      then show ?thesis using s1 queue by (simp add: rx_flow_def stream_def s2_def)
    next
      case no: False
      then have "s' = upd_link Link1 (\<lambda>l. l\<lparr>tlpBlocked := True\<rparr>) s1"
        using Cons.prems queue False r by (simp add: drainTlpSendQueue.simps [of _ _ s])
      moreover have "s1 = s"
        using r no by (auto simp: sendReq_def mem_recvTimingReq_def Option.bind_eq_Some_conv split: if_splits)
      ultimately show ?thesis by (simp add: rx_flow_def stream_def)
    qed
  qed
qed

section \<open>Replaying the retry buffer\<close>

text \<open>The clock of the link has an edge ahead that fits into a tick.\<close>

definition clock_room :: "link_id \<Rightarrow> sys \<Rightarrow> bool" where
  "clock_room i s \<longleftrightarrow> 0 < clockPeriod (link s i) \<and>
     unat (curTick s) + 2 * unat (clockPeriod (link s i)) < 2 ^ 64 \<and>
     clock_ok (curTick s) (clockPeriod (link s i)) (clk (link s i))"

lemma drainTxSendQueue_ok:
  assumes "clock_room i s"
  shows "\<exists>s' ck. drainTxSendQueue i s = Some s' \<and> scheduled (SendFlit i) s' \<and> heap s' = heap s \<and>
    curTick s' = curTick s \<and> link s' i = (link s i)\<lparr>clk := ck\<rparr> \<and>
    (\<forall>x. snd x \<noteq> SendFlit i \<longrightarrow> x \<in> set (eventq s') \<longleftrightarrow> x \<in> set (eventq s))"
proof (cases "scheduled (SendFlit i) s")
  case True
  then show ?thesis by (intro exI [of _ s] exI [of _ "clk (link s i)"]) (simp add: drainTxSendQueue_def)
next
  case False
  let ?P = "clockPeriod (link s i)" and ?c = "clk (link s i)"
  have P: "0 < ?P" "clock_ok (curTick s) ?P ?c" and room: "unat (curTick s) + (unat (1 :: u64) + 1) * unat ?P < 2 ^ 64"
    "unat (curTick s) + unat ?P < 2 ^ 64"
    using assms by (simp_all add: clock_room_def)
  define t where "t = fst (clockEdge (curTick s) ?P 1 ?c)"
  define ck where "ck = snd (clockEdge (curTick s) ?P 1 ?c)"
  have "curTick s \<le> t"
    using unat_clockEdge [OF P(1) room(1) P(2)] update_window(1) [OF P(1) room(2) P(2)]
    by (simp add: t_def word_le_nat_alt)
  then have "drainTxSendQueue i s = Some (sched (SendFlit i) t (upd_link i (\<lambda>l. l\<lparr>clk := ck\<rparr>) s))"
    using False by (simp add: drainTxSendQueue_def link_clockEdge_def t_def ck_def split_beta Let_def schedule_eq scheduled_def)
  then show ?thesis by (auto simp: sched_def scheduled_def)
qed

text \<open>The retry buffer holds live flits, each once.\<close>

definition retry_ok :: "link_id \<Rightarrow> sys \<Rightarrow> bool" where
  "retry_ok i s \<longleftrightarrow> distinct (retryBuffer (link s i)) \<and>
     (\<forall>p \<in> set (retryBuffer (link s i)). \<exists>f. heap s p = Some (FlitObj f))"

lemma replayFlits_ok:
  assumes "\<forall>p \<in> set ps. \<exists>f. heap s p = Some (FlitObj f)" and "distinct ps"
    and "length (retryBuffer (link s i)) = length ps"
  shows "\<exists>s' st. replayFlits i ps s = Some s' \<and> curTick s' = curTick s \<and> eventq s' = eventq s \<and>
    link s' i = (link s i)\<lparr>txSendQueue := rev ps @ txSendQueue (link s i), retryBuffer := [], stats := st\<rparr> \<and>
    (\<forall>p f. p \<in> set ps \<and> heap s p = Some (FlitObj f) \<longrightarrow> heap s' p = Some (FlitObj (f\<lparr>isRetransmission := True\<rparr>))) \<and>
    (\<forall>p. p \<notin> set ps \<longrightarrow> heap s' p = heap s p)"
  using assms
proof (induction ps arbitrary: s)
  case Nil
  then show ?case by (intro exI [of _ s] exI [of _ "stats (link s i)"]) simp
next
  case (Cons p ps)
  then obtain f where f: "heap s p = Some (FlitObj f)" by auto
  define s1 where "s1 = upd_link i (\<lambda>l. upd_stats (\<lambda>st. st\<lparr>totalRetransmissions := totalRetransmissions st + 1\<rparr>)
      (l\<lparr>txSendQueue := p # txSendQueue l, retryBuffer := butlast (retryBuffer l)\<rparr>))
    (put_flit p (f\<lparr>isRetransmission := True\<rparr>) s)"
  have h: "heap s1 p = Some (FlitObj (f\<lparr>isRetransmission := True\<rparr>))" "\<And>x. x \<noteq> p \<Longrightarrow> heap s1 x = heap s x"
    by (simp_all add: s1_def put_flit_def)
  have "\<forall>x \<in> set ps. \<exists>g. heap s1 x = Some (FlitObj g)" "distinct ps" "length (retryBuffer (link s1 i)) = length ps"
    using Cons.prems h by (auto simp: s1_def put_flit_def)
  from Cons.IH [OF this] obtain s' st where IH: "replayFlits i ps s1 = Some s'" "curTick s' = curTick s1"
    "eventq s' = eventq s1"
    "link s' i = (link s1 i)\<lparr>txSendQueue := rev ps @ txSendQueue (link s1 i), retryBuffer := [], stats := st\<rparr>"
    "\<forall>x g. x \<in> set ps \<and> heap s1 x = Some (FlitObj g) \<longrightarrow> heap s' x = Some (FlitObj (g\<lparr>isRetransmission := True\<rparr>))"
    "\<forall>x. x \<notin> set ps \<longrightarrow> heap s' x = heap s1 x" by blast
  have "replayFlits i (p # ps) s = Some s'" using IH(1) f by (simp add: s1_def)
  moreover have "link s' i = (link s i)\<lparr>txSendQueue := rev (p # ps) @ txSendQueue (link s i), retryBuffer := [], stats := st\<rparr>"
    using IH(4) by (simp add: s1_def put_flit_def upd_stats_def)
  moreover have "curTick s' = curTick s" "eventq s' = eventq s" using IH(2,3) by (simp_all add: s1_def put_flit_def)
  moreover have "heap s' x = Some (FlitObj (g\<lparr>isRetransmission := True\<rparr>))"
    if "x \<in> set (p # ps)" "heap s x = Some (FlitObj g)" for x g
  proof (cases "x = p")
    case True
    then show ?thesis using that f h(1) IH(6) Cons.prems(2) by simp
  next
    case False
    then show ?thesis using that h(2) IH(5) by simp
  qed
  moreover have "heap s' x = heap s x" if "x \<notin> set (p # ps)" for x
    using that h IH(6) by auto
  ultimately show ?case by blast
qed

text \<open>
  What an acknowledgement of timestamp \<open>t\<close> retires and what it leaves, and the tick at which
  the retry timer of a flit is due.
\<close>

definition acknowledged :: "link_id \<Rightarrow> Tick \<Rightarrow> sys \<Rightarrow> ptr list" where
  "acknowledged i t s = takeWhile (\<lambda>p. timestamp (the (flit_at (heap s) p)) \<le> t) (retryBuffer (link s i))"

definition unacked :: "link_id \<Rightarrow> Tick \<Rightarrow> sys \<Rightarrow> ptr list" where
  "unacked i t s = dropWhile (\<lambda>p. timestamp (the (flit_at (heap s) p)) \<le> t) (retryBuffer (link s i))"

definition timer_due :: "link_id \<Rightarrow> sys \<Rightarrow> ptr \<Rightarrow> Tick" where
  "timer_due i s p = timestamp (the (flit_at (heap s) p)) + retryTimeoutDelay (link s i)"

text \<open>The part of \<open>processAck\<close> that wakes a blocked sender up.\<close>

lemma wake_ok:
  assumes "clock_room i s"
  obtains s' where "(if txBlocked (link s i) \<and> txCredits (link s i) > 0
      then drainTxSendQueue i (upd_link i (\<lambda>l. l\<lparr>txBlocked := False\<rparr>) s) else Some s) = Some s'"
    "heap s' = heap s" "retryBuffer (link s' i) = retryBuffer (link s i)"
    "txCredits (link s' i) = txCredits (link s i)" "linkState (link s' i) = linkState (link s i)"
    "retryTimeoutDelay (link s' i) = retryTimeoutDelay (link s i)" "curTick s' = curTick s"
    "txSendQueue (link s' i) = txSendQueue (link s i)"
    "txBlocked (link s' i) = (txBlocked (link s i) \<and> \<not> (txBlocked (link s i) \<and> txCredits (link s i) > 0))"
    "scheduled (SendFlit i) s' = (scheduled (SendFlit i) s \<or> txBlocked (link s i) \<and> txCredits (link s i) > 0)"
proof (cases "txBlocked (link s i) \<and> txCredits (link s i) > 0")
  case True
  have "clock_room i (upd_link i (\<lambda>l. l\<lparr>txBlocked := False\<rparr>) s)"
    using assms by (simp add: clock_room_def)
  from drainTxSendQueue_ok [OF this] obtain s' ck where
    "drainTxSendQueue i (upd_link i (\<lambda>l. l\<lparr>txBlocked := False\<rparr>) s) = Some s'" "scheduled (SendFlit i) s'"
    "heap s' = heap s" "curTick s' = curTick s"
    "link s' i = (link (upd_link i (\<lambda>l. l\<lparr>txBlocked := False\<rparr>) s) i)\<lparr>clk := ck\<rparr>"
    by auto
  then show ?thesis using True by (intro that [of s']) simp_all
next
  case False
  then show ?thesis by (intro that [of s]) auto
qed

lemma processAck_ok:
  assumes "retry_ok i s" and "clock_room i s"
    and "unacked i t s \<noteq> [] \<Longrightarrow> curTick s \<le> timer_due i s (hd (unacked i t s))"
  shows "\<exists>s'. processAck i t s = Some s' \<and> curTick s' = curTick s \<and>
    txSendQueue (link s' i) = txSendQueue (link s i) \<and>
    retryTimeoutDelay (link s' i) = retryTimeoutDelay (link s i) \<and>
    retryBuffer (link s' i) = unacked i t s \<and>
    txCredits (link s' i) = min (txCredits (link s i) + of_nat (length (acknowledged i t s))) (creditPool (link s i)) \<and>
    (\<forall>p. heap s' p = (if p \<in> set (acknowledged i t s) then None else heap s p)) \<and>
    (\<forall>k. (k, RetryTimeout i) \<in> set (eventq s') \<longleftrightarrow>
      unacked i t s \<noteq> [] \<and> k = (timer_due i s (hd (unacked i t s)), 0)) \<and>
    txBlocked (link s' i) = (txBlocked (link s i) \<and> txCredits (link s' i) = 0) \<and>
    scheduled (SendFlit i) s' = (scheduled (SendFlit i) s \<or> txBlocked (link s i) \<and> txCredits (link s' i) \<noteq> 0) \<and>
    linkState (link s' i) =
      (if unacked i t s = [] \<and> linkState (link s i) = RETRAIN then ACTIVE else linkState (link s i))"
proof -
  let ?rb = "retryBuffer (link s i)" and ?l = "link s i"
  define old where "old = acknowledged i t s"
  define rest where "rest = unacked i t s"
  define h where "h = (\<lambda>p. if p \<in> set old then None else heap s p)"
  define s1 where "s1 = upd_link i (\<lambda>l. l\<lparr>lastAckedTimestamp := t, retryBuffer := rest,
    txCredits := min (txCredits l + of_nat (length old)) (creditPool l)\<rparr>) (s\<lparr>heap := h\<rparr>)"
  have rb: "?rb = old @ rest" "distinct ?rb" "\<forall>p \<in> set ?rb. \<exists>f. heap s p = Some (FlitObj f)"
    using assms(1) by (simp_all add: old_def rest_def acknowledged_def unacked_def retry_ok_def)
  have ret: "retireFlits (\<lambda>u. u \<le> t) ?rb (heap s) = Some (of_nat (length old), rest, h)"
    using retireFlits_eq [OF rb(3,2)]
    by (simp add: Let_def old_def rest_def h_def acknowledged_def unacked_def)
  let ?wake = "txBlocked (link s1 i) \<and> txCredits (link s1 i) > 0"
  have s1: "heap s1 = h" "retryBuffer (link s1 i) = rest" "linkState (link s1 i) = linkState ?l"
    "retryTimeoutDelay (link s1 i) = retryTimeoutDelay ?l" "curTick s1 = curTick s"
    "txSendQueue (link s1 i) = txSendQueue ?l" "txBlocked (link s1 i) = txBlocked ?l"
    "scheduled (SendFlit i) s1 = scheduled (SendFlit i) s"
    "txCredits (link s1 i) = min (txCredits ?l + of_nat (length old)) (creditPool ?l)"
    by (simp_all add: s1_def scheduled_def)
  have "clock_room i s1" using assms(2) by (simp add: clock_room_def s1_def)
  then obtain s2 where s2: "(if ?wake
      then drainTxSendQueue i (upd_link i (\<lambda>l. l\<lparr>txBlocked := False\<rparr>) s1) else Some s1) = Some s2"
    "heap s2 = heap s1" "retryBuffer (link s2 i) = retryBuffer (link s1 i)"
    "txCredits (link s2 i) = txCredits (link s1 i)" "linkState (link s2 i) = linkState (link s1 i)"
    "retryTimeoutDelay (link s2 i) = retryTimeoutDelay (link s1 i)" "curTick s2 = curTick s1"
    "txSendQueue (link s2 i) = txSendQueue (link s1 i)" "txBlocked (link s2 i) = (txBlocked (link s1 i) \<and> \<not> ?wake)"
    "scheduled (SendFlit i) s2 = (scheduled (SendFlit i) s1 \<or> ?wake)"
    by (rule wake_ok)
  note s2' = s2(2-10) [unfolded s1(1-8)]
  define s3 where "s3 = s2\<lparr>eventq := q_remove (RetryTimeout i) (eventq s2)\<rparr>"
  define s4 where "s4 = (if rest = [] then s3 else sched (RetryTimeout i) (timer_due i s (hd rest)) s3)"
  have s4: "(if retryBuffer (link s3 i) \<noteq> []
      then do { f \<leftarrow> flit_at (heap s3) (hd (retryBuffer (link s3 i)));
                schedule (RetryTimeout i) (timestamp f + retryTimeoutDelay (link s3 i)) s3 }
      else Some s3) = Some s4"
  proof (cases rest)
    case (Cons p ps)
    then obtain f where f: "heap s p = Some (FlitObj f)" "p \<notin> set old" using rb by auto
    then have "curTick s \<le> timestamp f + retryTimeoutDelay ?l"
      using assms(3) Cons by (simp add: flit_at_def timer_due_def rest_def)
    then show ?thesis using Cons f s2'(1,2,5,6)
      by (simp add: s3_def s4_def h_def flit_at_def schedule_eq scheduled_def timer_due_def)
  qed (simp add: s3_def s4_def s2'(2))
  define s' where "s' = (if retryBuffer (link s4 i) = [] \<and> linkState (link s4 i) = RETRAIN
    then upd_link i (\<lambda>l. l\<lparr>linkState := ACTIVE\<rparr>) s4 else s4)"
  have "processAck i t s =
      do { s2 \<leftarrow> (if ?wake then drainTxSendQueue i (upd_link i (\<lambda>l. l\<lparr>txBlocked := False\<rparr>) s1) else Some s1);
           s3 \<leftarrow> deschedule_if (RetryTimeout i) s2;
           s4 \<leftarrow> (if retryBuffer (link s3 i) \<noteq> []
             then do { f \<leftarrow> flit_at (heap s3) (hd (retryBuffer (link s3 i)));
                       schedule (RetryTimeout i) (timestamp f + retryTimeoutDelay (link s3 i)) s3 }
             else Some s3);
           Some (if retryBuffer (link s4 i) = [] \<and> linkState (link s4 i) = RETRAIN
             then upd_link i (\<lambda>l. l\<lparr>linkState := ACTIVE\<rparr>) s4 else s4) }"
    by (simp add: processAck_def ret s1_def Let_def)
  then have "processAck i t s = Some s'"
    by (simp only: s2(1) Option.bind.bind_lunit deschedule_if_eq s3_def [symmetric] s4 s'_def)
  moreover have "retryBuffer (link s' i) = rest" "\<forall>p. heap s' p = (if p \<in> set old then None else heap s p)"
    "txCredits (link s' i) = min (txCredits ?l + of_nat (length old)) (creditPool ?l)"
    "linkState (link s' i) = (if rest = [] \<and> linkState ?l = RETRAIN then ACTIVE else linkState ?l)"
    "curTick s' = curTick s" "txSendQueue (link s' i) = txSendQueue ?l"
    "retryTimeoutDelay (link s' i) = retryTimeoutDelay ?l"
    using s2'(1-7) s1(9) by (auto simp: s'_def s4_def s3_def h_def)
  moreover have "txBlocked (link s' i) = (txBlocked ?l \<and> txCredits (link s' i) = 0)"
    "scheduled (SendFlit i) s' = (scheduled (SendFlit i) s \<or> txBlocked ?l \<and> txCredits (link s' i) \<noteq> 0)"
    using s2'(3,8,9) by (auto simp: s'_def s4_def s3_def word_gt_0 scheduled_def sched_def)
  moreover have "(k, RetryTimeout i) \<in> set (eventq s') \<longleftrightarrow> rest \<noteq> [] \<and> k = (timer_due i s (hd rest), 0)" for k
    by (auto simp: s'_def s4_def s3_def sched_def scheduled_def)
  ultimately show ?thesis unfolding old_def rest_def by blast
qed

lemma processNak_ok:
  assumes "retry_ok i s" and "clock_room i s"
  shows "\<exists>s'. processNak i t s = Some s' \<and>
    (let old = takeWhile (\<lambda>p. timestamp (the (flit_at (heap s) p)) < t) (retryBuffer (link s i));
         new = dropWhile (\<lambda>p. timestamp (the (flit_at (heap s) p)) < t) (retryBuffer (link s i)) in
     txSendQueue (link s' i) = new @ txSendQueue (link s i) \<and> retryBuffer (link s' i) = [] \<and>
     linkState (link s' i) = RETRAIN \<and> txCredits (link s' i) = txCredits (link s i) \<and>
     scheduled (SendFlit i) s' \<and> \<not> scheduled (RetryTimeout i) s' \<and>
     (\<forall>p. p \<notin> set (retryBuffer (link s i)) \<longrightarrow> heap s' p = heap s p) \<and>
     (\<forall>p \<in> set old. heap s' p = None) \<and>
     (\<forall>p \<in> set new. heap s' p =
       Some (FlitObj ((the (flit_at (heap s) p))\<lparr>isRetransmission := True\<rparr>))))"
proof -
  let ?P = "\<lambda>p. timestamp (the (flit_at (heap s) p)) < t" and ?rb = "retryBuffer (link s i)"
  define old where "old = takeWhile ?P ?rb"
  define new where "new = dropWhile ?P ?rb"
  define h where "h = (\<lambda>p. if p \<in> set old then None else heap s p)"
  define s1 where "s1 = upd_link i (\<lambda>l. l\<lparr>retryBuffer := new\<rparr>)
    ((upd_link i (upd_stats (\<lambda>st. st\<lparr>totalFlitsNaked := totalFlitsNaked st + 1\<rparr>)) s)\<lparr>heap := h\<rparr>)"
  have rb: "?rb = old @ new" "distinct ?rb" "\<forall>p \<in> set ?rb. \<exists>f. heap s p = Some (FlitObj f)"
    using assms(1) by (simp_all add: old_def new_def retry_ok_def)
  have ret: "retireFlits (\<lambda>u. u < t) ?rb (heap s) = Some (of_nat (length old), new, h)"
    using retireFlits_eq [OF rb(3,2)] by (simp add: Let_def old_def new_def h_def)
  have live: "\<forall>p \<in> set (rev new). \<exists>f. heap s1 p = Some (FlitObj f)" "distinct (rev new)"
    "length (retryBuffer (link s1 i)) = length (rev new)"
    using rb by (auto simp: s1_def h_def)
  obtain s2 st where s2: "replayFlits i (rev new) s1 = Some s2" "curTick s2 = curTick s1" "eventq s2 = eventq s1"
    "link s2 i = (link s1 i)\<lparr>txSendQueue := rev (rev new) @ txSendQueue (link s1 i), retryBuffer := [], stats := st\<rparr>"
    "\<forall>p f. p \<in> set (rev new) \<and> heap s1 p = Some (FlitObj f) \<longrightarrow> heap s2 p = Some (FlitObj (f\<lparr>isRetransmission := True\<rparr>))"
    "\<forall>p. p \<notin> set (rev new) \<longrightarrow> heap s2 p = heap s1 p"
    using replayFlits_ok [OF live] by blast
  define s3 where "s3 = upd_link i (\<lambda>l. l\<lparr>linkState := RETRAIN\<rparr>) (s2\<lparr>eventq := q_remove (RetryTimeout i) (eventq s2)\<rparr>)"
  have "clock_room i s3" using assms(2) s2(2,4) by (simp add: clock_room_def s3_def s1_def)
  then obtain s' ck where s': "drainTxSendQueue i s3 = Some s'" "scheduled (SendFlit i) s'" "heap s' = heap s3"
    "link s' i = (link s3 i)\<lparr>clk := ck\<rparr>" "\<forall>x. snd x \<noteq> SendFlit i \<longrightarrow> x \<in> set (eventq s') \<longleftrightarrow> x \<in> set (eventq s3)"
    using drainTxSendQueue_ok by blast
  have "processNak i t s = Some s'"
    using ret s2(1) s'(1) by (simp add: processNak_def s1_def s3_def deschedule_if_eq)
  moreover have "txSendQueue (link s' i) = new @ txSendQueue (link s i)" "retryBuffer (link s' i) = []"
    "linkState (link s' i) = RETRAIN" "txCredits (link s' i) = txCredits (link s i)"
    using s'(4) s2(4) by (simp_all add: s3_def s1_def)
  moreover have "\<not> scheduled (RetryTimeout i) s'" using s'(5) by (auto simp: s3_def scheduled_def q_member_def)
  moreover have "heap s' p = heap s p" if "p \<notin> set ?rb" for p
    using that rb(1) s2(6) s'(3) by (simp add: s3_def s1_def h_def)
  moreover have "heap s' p = None" if "p \<in> set old" for p
    using that rb(1,2) s2(6) s'(3) by (auto simp: s3_def s1_def h_def)
  moreover have "heap s' p = Some (FlitObj ((the (flit_at (heap s) p))\<lparr>isRetransmission := True\<rparr>))"
    if p: "p \<in> set new" for p
  proof -
    obtain f where f: "heap s p = Some (FlitObj f)" using p rb(1,3) by auto
    then have "heap s1 p = Some (FlitObj f)" using p rb(1,2) by (auto simp: s1_def h_def)
    then show ?thesis using p f s2(5) s'(3) by (simp add: s3_def)
  qed
  ultimately show ?thesis using s'(2) unfolding Let_def old_def new_def by simp
qed

section \<open>Answers\<close>

text \<open>
  The sender can take an answer of the receiver: its retry buffer holds live flits, its clock
  has room, and the addresses from the next one on are free. An acknowledgement also needs
  that no retry timer is overdue, since it sets the timer of the oldest flit that is left.
\<close>

definition peer_ok :: "sys \<Rightarrow> bool" where
  "peer_ok s \<longleftrightarrow> retry_ok Link0 s \<and> clock_room Link0 s \<and> (\<forall>p \<ge> nextPtr s. heap s p = None)"

definition timers_ok :: "sys \<Rightarrow> bool" where
  "timers_ok s \<longleftrightarrow> (\<forall>p \<in> set (retryBuffer (link s Link0)). curTick s \<le> timer_due Link0 s p)"

lemma peer_cong:
  assumes "link s' Link0 = link s Link0" and "curTick s' = curTick s"
    and "\<And>p. p \<in> set (retryBuffer (link s Link0)) \<Longrightarrow> heap s' p = heap s p"
  shows "retry_ok Link0 s' = retry_ok Link0 s" and "clock_room Link0 s' = clock_room Link0 s"
    and "timers_ok s' = timers_ok s" and "unacked Link0 t s' = unacked Link0 t s"
    and "acknowledged Link0 t s' = acknowledged Link0 t s"
proof -
  have fl: "flit_at (heap s') p = flit_at (heap s) p" if "p \<in> set (retryBuffer (link s Link0))" for p
    using assms(3) [OF that] by (simp add: flit_at_def)
  show "retry_ok Link0 s' = retry_ok Link0 s" "clock_room Link0 s' = clock_room Link0 s"
    using assms by (auto simp: retry_ok_def clock_room_def)
  show "timers_ok s' = timers_ok s" using assms(1,2) fl by (simp add: timers_ok_def timer_due_def)
  show "unacked Link0 t s' = unacked Link0 t s"
    unfolding unacked_def assms(1) using fl by (auto intro: dropWhile_cong)
  show "acknowledged Link0 t s' = acknowledged Link0 t s"
    unfolding acknowledged_def assms(1) using fl by (auto intro: takeWhile_cong)
qed

text \<open>The state in which the sender's handler runs: the answer is a new flit.\<close>

definition with_answer :: "flit \<Rightarrow> sys \<Rightarrow> sys" where
  "with_answer f s = s\<lparr>heap := (heap s)(nextPtr s \<mapsto> FlitObj f), nextPtr := Suc (nextPtr s)\<rparr>"

lemma with_answer_sel [simp]:
  "link (with_answer f s) = link s" "curTick (with_answer f s) = curTick s"
  "heap (with_answer f s) = (heap s)(nextPtr s \<mapsto> FlitObj f)"
  by (simp_all add: with_answer_def)

lemma peer_free:
  assumes "peer_ok s"
  shows "heap s (nextPtr s) = None" and "nextPtr s \<notin> set (retryBuffer (link s Link0))"
    and "p \<in> set (retryBuffer (link s Link0)) \<Longrightarrow> heap (with_answer f s) p = heap s p"
  using assms by (auto simp: peer_ok_def retry_ok_def)

lemma peer_with:
  assumes "peer_ok s"
  shows "retry_ok Link0 (with_answer f s)" and "clock_room Link0 (with_answer f s)"
    and "timers_ok (with_answer f s) = timers_ok s"
    and "unacked Link0 t (with_answer f s) = unacked Link0 t s"
    and "acknowledged Link0 t (with_answer f s) = acknowledged Link0 t s"
proof -
  note c = peer_cong [of "with_answer f s" s, OF _ _ peer_free(3) [OF assms]]
  show "retry_ok Link0 (with_answer f s)" "clock_room Link0 (with_answer f s)"
    using c(1,2) assms by (simp_all add: peer_ok_def)
  show "timers_ok (with_answer f s) = timers_ok s" "unacked Link0 t (with_answer f s) = unacked Link0 t s"
    "acknowledged Link0 t (with_answer f s) = acknowledged Link0 t s"
    using c(3-5) by simp_all
qed

lemma timers_hd:
  assumes "timers_ok s" and "unacked Link0 t s \<noteq> []"
  shows "curTick s \<le> timer_due Link0 s (hd (unacked Link0 t s))"
proof -
  have "hd (unacked Link0 t s) \<in> set (retryBuffer (link s Link0))"
    using assms(2) unfolding unacked_def by (metis hd_in_set set_dropWhileD)
  then show ?thesis using assms(1) by (simp add: timers_ok_def)
qed

lemma sendAck_ok:
  assumes "peer_ok s" and "timers_ok s"
  shows "\<exists>s'. sendAck (rx_sendTimingResp Link1) Link1 t s = Some s' \<and> curTick s' = curTick s \<and>
    txSendQueue (link s' Link0) = txSendQueue (link s Link0) \<and>
    retryBuffer (link s' Link0) = unacked Link0 t s \<and>
    retryTimeoutDelay (link s' Link0) = retryTimeoutDelay (link s Link0) \<and>
    (\<forall>x. x \<notin> set (retryBuffer (link s Link0)) \<longrightarrow> heap s' x = heap s x)"
proof -
  obtain f where f: "newFlit (curTick s) UCIE_FLIT_SIZE_BYTES WriteResp (curTick s) FLIT_LEVEL_ACK = Some f"
    "flitType f = FLIT_LEVEL_ACK" "cmd f = WriteResp" using newFlit_eq by blast
  let ?f = "f\<lparr>timestamp := t\<rparr>" and ?n = "nextPtr s" and ?rb = "retryBuffer (link s Link0)"
  note free = peer_free [OF assms(1)]
  note w = peer_with [OF assms(1)]
  have tm: "timers_ok (with_answer ?f s)" using assms(2) w(3) by simp
  obtain s1 where s1: "processAck Link0 t (with_answer ?f s) = Some s1" "curTick s1 = curTick s"
    "txSendQueue (link s1 Link0) = txSendQueue (link s Link0)" "retryBuffer (link s1 Link0) = unacked Link0 t s"
    "retryTimeoutDelay (link s1 Link0) = retryTimeoutDelay (link s Link0)"
    "\<forall>p. heap s1 p = (if p \<in> set (acknowledged Link0 t s) then None else heap (with_answer ?f s) p)"
    using processAck_ok [OF w(1,2) timers_hd [OF tm], of t] w(4,5) by auto
  have old: "set (acknowledged Link0 t s) \<subseteq> set ?rb" by (auto simp: acknowledged_def dest: set_takeWhileD)
  then have n: "heap s1 ?n = Some (FlitObj ?f)" using s1(6) free(2) by auto
  have "sendAck (rx_sendTimingResp Link1) Link1 t s =
      Some (upd_link Link1 (upd_stats (\<lambda>st. st\<lparr>totalAcksSent := totalAcksSent st + 1\<rparr>))
        (s1\<lparr>heap := (heap s1)(?n := None)\<rparr>))"
    using f s1(1) n
    by (simp add: sendAck_def new_obj_def rx_sendTimingResp.simps sendResp_def tx_recvTimingResp_def
        delete_obj_def with_answer_def)
  then show ?thesis using s1(2-6) free(1) old by (auto simp: fun_upd_def)
qed

text \<open>The flits that a negative acknowledgement of timestamp \<open>t\<close> sends again.\<close>

definition replayed :: "Tick \<Rightarrow> sys \<Rightarrow> ptr list" where
  "replayed t s = dropWhile (\<lambda>p. timestamp (the (flit_at (heap s) p)) < t) (retryBuffer (link s Link0))"

lemma sendNak_ok:
  assumes "peer_ok s"
  shows "\<exists>s'. sendNak (rx_sendTimingResp Link1) Link1 t s = Some s' \<and>
    linkState (link s' Link0) = RETRAIN \<and> retryBuffer (link s' Link0) = [] \<and>
    txSendQueue (link s' Link0) = replayed t s @ txSendQueue (link s Link0) \<and>
    scheduled (SendFlit Link0) s' \<and> \<not> scheduled (RetryTimeout Link0) s' \<and>
    (\<forall>p \<in> set (replayed t s). heap s' p =
      Some (FlitObj ((the (flit_at (heap s) p))\<lparr>isRetransmission := True\<rparr>))) \<and>
    (\<forall>x. x \<notin> set (retryBuffer (link s Link0)) \<longrightarrow> heap s' x = heap s x)"
proof -
  obtain f where f: "newFlit (curTick s) UCIE_FLIT_SIZE_BYTES WriteResp (curTick s) FLIT_LEVEL_NAK = Some f"
    "flitType f = FLIT_LEVEL_NAK" "cmd f = WriteResp" using newFlit_eq by blast
  let ?f = "f\<lparr>timestamp := t\<rparr>" and ?n = "nextPtr s" and ?rb = "retryBuffer (link s Link0)"
  note free = peer_free [OF assms]
  have fl: "flit_at (heap (with_answer ?f s)) p = flit_at (heap s) p" if "p \<in> set ?rb" for p
    using free(3) [OF that] by (simp only: flit_at_def)
  have new: "dropWhile (\<lambda>p. timestamp (the (flit_at (heap (with_answer ?f s)) p)) < t) ?rb = replayed t s"
    unfolding replayed_def using fl by (auto intro: dropWhile_cong)
  have sub: "set (replayed t s) \<subseteq> set ?rb" by (auto simp: replayed_def dest: set_dropWhileD)
  obtain s1 where s1: "processNak Link0 t (with_answer ?f s) = Some s1"
    "txSendQueue (link s1 Link0) = replayed t s @ txSendQueue (link s Link0)" "retryBuffer (link s1 Link0) = []"
    "linkState (link s1 Link0) = RETRAIN" "scheduled (SendFlit Link0) s1" "\<not> scheduled (RetryTimeout Link0) s1"
    "\<forall>p. p \<notin> set ?rb \<longrightarrow> heap s1 p = heap (with_answer ?f s) p"
    "\<forall>p \<in> set (replayed t s). heap s1 p =
      Some (FlitObj ((the (flit_at (heap (with_answer ?f s)) p))\<lparr>isRetransmission := True\<rparr>))"
    using processNak_ok [OF peer_with(1) [OF assms, of ?f] peer_with(2) [OF assms, of ?f], of t] unfolding Let_def with_answer_sel(1) new by blast
  have n: "heap s1 ?n = Some (FlitObj ?f)" using s1(7) free(2) by simp
  let ?s' = "upd_link Link1 (upd_stats (\<lambda>st. st\<lparr>totalNaksSent := totalNaksSent st + 1\<rparr>))
      (s1\<lparr>heap := (heap s1)(?n := None)\<rparr>)"
  have run: "sendNak (rx_sendTimingResp Link1) Link1 t s = Some ?s'"
    using f s1(1) n
    by (simp add: sendNak_def new_obj_def rx_sendTimingResp.simps sendResp_def tx_recvTimingResp_def
        delete_obj_def with_answer_def)
  have "heap ?s' p = Some (FlitObj ((the (flit_at (heap s) p))\<lparr>isRetransmission := True\<rparr>))"
    if "p \<in> set (replayed t s)" for p
    using that s1(8) fl sub free(2) by (auto simp del: with_answer_sel(3))
  moreover have "heap ?s' x = heap s x" if "x \<notin> set ?rb" for x
    using that s1(7) free(1) by auto
  ultimately show ?thesis using run s1(2-6) by (auto simp: scheduled_def)
qed

section \<open>Receiving a flit\<close>

text \<open>What the receiver has done to its counters when it looks at a flit.\<close>

definition counted :: "sys \<Rightarrow> sys" where
  "counted s = upd_link Link1 (\<lambda>l. upd_stats
      (\<lambda>st. st\<lparr>totalFlitsReceived := totalFlitsReceived st + 1\<rparr>)
      (l\<lparr>rxBitsReceived := rxBitsReceived l + 2048\<rparr>)) s"

definition crc_locked :: "u64 \<Rightarrow> sys \<Rightarrow> sys" where
  "crc_locked g s = upd_link Link1 (\<lambda>l. upd_stats
      (\<lambda>st. st\<lparr>totalCrcErrors := totalCrcErrors st + 1\<rparr>)
      (l\<lparr>nextErrorAtBits := nextErrorAtBits l + g, rxWaitingForRetry := True\<rparr>)) (counted s)"

definition unlocked :: "sys \<Rightarrow> sys" where
  "unlocked s = upd_link Link1 (\<lambda>l. l\<lparr>rxWaitingForRetry := False\<rparr>) (counted s)"

definition accepted :: "flit \<Rightarrow> sys \<Rightarrow> sys" where
  "accepted f s = upd_link Link1 (\<lambda>l. l\<lparr>lastProcessedTimestamp := timestamp f,
      rxFlitCounter := rxFlitCounter l + 1\<rparr>) (unlocked s)"

lemmas recv_states = counted_def crc_locked_def unlocked_def accepted_def

lemma recv_states_sel [simp]:
  "heap (counted s) = heap s" "link (counted s) Link0 = link s Link0" "curTick (counted s) = curTick s"
  "nextPtr (counted s) = nextPtr s" "stream (counted s) = stream s"
  "heap (crc_locked g s) = heap s" "link (crc_locked g s) Link0 = link s Link0"
  "curTick (crc_locked g s) = curTick s" "nextPtr (crc_locked g s) = nextPtr s" "stream (crc_locked g s) = stream s"
  "heap (unlocked s) = heap s" "link (unlocked s) Link0 = link s Link0" "curTick (unlocked s) = curTick s"
  "nextPtr (unlocked s) = nextPtr s" "stream (unlocked s) = stream s"
  "heap (accepted f s) = heap s" "link (accepted f s) Link0 = link s Link0" "curTick (accepted f s) = curTick s"
  "nextPtr (accepted f s) = nextPtr s" "stream (accepted f s) = stream s"
  "tlpSendQueue (link (accepted f s) Link1) = tlpSendQueue (link s Link1)"
  by (simp_all add: recv_states stream_def)

abbreviation recv1 :: "ptr \<Rightarrow> sys \<Rightarrow> (bool \<times> sys) option" where
  "recv1 \<equiv> rx_recvTimingReq (sendReq mem_recvTimingReq) (rx_sendTimingResp Link1) Link1"

lemma recv1_eq:
  assumes "heap s p = Some (FlitObj f)"
  shows "recv1 p s =
    (let l = link s Link1 in
     if \<not> no_crc_error l f then do {
       g \<leftarrow> errorGapBits (errorRate l);
       s3 \<leftarrow> sendNak (rx_sendTimingResp Link1) Link1 (timestamp f) (crc_locked g s);
       s4 \<leftarrow> delete_obj p s3;
       Some (True, s4) }
     else if rxWaitingForRetry l \<and> \<not> isRetransmission f then do {
       s2 \<leftarrow> delete_obj p (counted s);
       Some (True, s2) }
     else if \<not> processable l f then do {
       s3 \<leftarrow> sendAck (rx_sendTimingResp Link1) Link1 (lastProcessedTimestamp l) (unlocked s);
       s4 \<leftarrow> delete_obj p s3;
       Some (True, s4) }
     else do {
       s4 \<leftarrow> unpackTlps Link1 (originalPackets f) (accepted f s);
       s5 \<leftarrow> drainTlpSendQueue (sendReq mem_recvTimingReq) Link1 s4;
       f1 \<leftarrow> flit_at (heap s5) p;
       s6 \<leftarrow> sendAck (rx_sendTimingResp Link1) Link1 (timestamp f1) s5;
       s7 \<leftarrow> delete_obj p s6;
       Some (True, s7) })"
  using assms
  by (auto simp: rx_recvTimingReq_def recvFlit_def Let_def no_crc_error_def processable_def
      processReceivedFlit_def recv_states not_le word_gt_0)

lemma recv_crc:
  assumes "heap s p = Some (FlitObj f)" and "\<not> no_crc_error (link s Link1) f" and "peer_ok s"
    and "p \<notin> set (retryBuffer (link s Link0))" and "errorGapBits (errorRate (link s Link1)) = Some g"
  shows "\<exists>s'. recv1 p s = Some (True, s') \<and> rx_same (crc_locked g s) s' \<and> heap s' p = None \<and>
    linkState (link s' Link0) = RETRAIN \<and> retryBuffer (link s' Link0) = [] \<and>
    txSendQueue (link s' Link0) = replayed (timestamp f) s @ txSendQueue (link s Link0) \<and>
    scheduled (SendFlit Link0) s' \<and> \<not> scheduled (RetryTimeout Link0) s' \<and>
    (\<forall>q \<in> set (replayed (timestamp f) s). heap s' q =
      Some (FlitObj ((the (flit_at (heap s) q))\<lparr>isRetransmission := True\<rparr>)))"
proof -
  let ?s = "crc_locked g s"
  have "peer_ok ?s" using assms(3) by (simp add: peer_ok_def retry_ok_def clock_room_def)
  moreover have new: "replayed (timestamp f) ?s = replayed (timestamp f) s" by (simp add: replayed_def)
  ultimately obtain s3 where s3: "sendNak (rx_sendTimingResp Link1) Link1 (timestamp f) ?s = Some s3"
    "linkState (link s3 Link0) = RETRAIN" "retryBuffer (link s3 Link0) = []"
    "txSendQueue (link s3 Link0) = replayed (timestamp f) s @ txSendQueue (link s Link0)"
    "scheduled (SendFlit Link0) s3" "\<not> scheduled (RetryTimeout Link0) s3"
    "\<forall>q \<in> set (replayed (timestamp f) s). heap s3 q =
      Some (FlitObj ((the (flit_at (heap s) q))\<lparr>isRetransmission := True\<rparr>))"
    "\<forall>x. x \<notin> set (retryBuffer (link s Link0)) \<longrightarrow> heap s3 x = heap s x"
    using sendNak_ok [of ?s "timestamp f"] by auto
  have "p \<notin> set (replayed (timestamp f) s)" using assms(4) by (auto simp: replayed_def dest: set_dropWhileD)
  moreover have "rx_same ?s (s3\<lparr>heap := (heap s3)(p := None)\<rparr>)" using rx_same_sendNak [OF s3(1)] by simp
  moreover have "recv1 p s = Some (True, s3\<lparr>heap := (heap s3)(p := None)\<rparr>)"
    using s3(1,8) assms by (simp add: recv1_eq [OF assms(1)] Let_def delete_obj_def)
  ultimately show ?thesis using s3(2-7) by (auto simp: scheduled_def)
qed

lemma recv_duplicate:
  assumes "heap s p = Some (FlitObj f)" and "no_crc_error (link s Link1) f"
    and "\<not> (rxWaitingForRetry (link s Link1) \<and> \<not> isRetransmission f)" and "\<not> processable (link s Link1) f"
    and "peer_ok s" and "timers_ok s" and "p \<notin> set (retryBuffer (link s Link0))"
  shows "\<exists>s'. recv1 p s = Some (True, s') \<and> rx_same (unlocked s) s' \<and> curTick s' = curTick s \<and>
    txSendQueue (link s' Link0) = txSendQueue (link s Link0) \<and>
    retryBuffer (link s' Link0) = unacked Link0 (lastProcessedTimestamp (link s Link1)) s \<and>
    retryTimeoutDelay (link s' Link0) = retryTimeoutDelay (link s Link0) \<and>
    (\<forall>x. x \<noteq> p \<and> x \<notin> set (retryBuffer (link s Link0)) \<longrightarrow> heap s' x = heap s x)"
proof -
  let ?s = "unlocked s" and ?t = "lastProcessedTimestamp (link s Link1)"
  note c = peer_cong [of ?s s]
  have "peer_ok ?s" "timers_ok ?s" using assms(5,6) c(1-3) by (simp_all add: peer_ok_def)
  then obtain s3 where s3: "sendAck (rx_sendTimingResp Link1) Link1 ?t ?s = Some s3" "curTick s3 = curTick s"
    "txSendQueue (link s3 Link0) = txSendQueue (link s Link0)" "retryBuffer (link s3 Link0) = unacked Link0 ?t s"
    "retryTimeoutDelay (link s3 Link0) = retryTimeoutDelay (link s Link0)"
    "\<forall>x. x \<notin> set (retryBuffer (link s Link0)) \<longrightarrow> heap s3 x = heap s x"
    using sendAck_ok [of ?s ?t] c(4) by auto
  have "rx_same ?s (s3\<lparr>heap := (heap s3)(p := None)\<rparr>)" using rx_same_sendAck [OF s3(1)] by simp
  moreover have "recv1 p s = Some (True, s3\<lparr>heap := (heap s3)(p := None)\<rparr>)"
    using s3(1,6) assms(1,2,4,7) unfolding recv1_eq [OF assms(1)] Let_def if_not_P [OF assms(3)]
    by (simp add: delete_obj_def)
  ultimately show ?thesis using s3(2-6) by auto
qed

text \<open>
  What the receiver needs to take a flit: it can be answered, it is not one of the flits of
  the sender's retry buffer, its TLPs are requests with their timers on top, each once, and
  so are the TLPs that still wait for the memory; the gap to the next error is a number.
\<close>

definition rx_ready :: "ptr \<Rightarrow> flit \<Rightarrow> sys \<Rightarrow> bool" where
  "rx_ready p f s \<longleftrightarrow> peer_ok s \<and> timers_ok s \<and> p \<notin> set (retryBuffer (link s Link0)) \<and>
     distinct (originalPackets f) \<and> (\<forall>x \<in> set (originalPackets f). timed (heap s) x) \<and>
     (\<forall>x \<in> set (tlpSendQueue (link s Link1)). live_req (heap s) x) \<and>
     (errorRate (link s Link1) > 0 \<longrightarrow> errorGapBits (errorRate (link s Link1)) \<noteq> None)"

lemma recv_new:
  assumes "heap s p = Some (FlitObj f)" and "processable (link s Link1) f" and "rx_ready p f s"
  shows "recv1 p s \<noteq> None"
proof -
  let ?ps = "originalPackets f" and ?rb = "retryBuffer (link s Link0)" and ?a = "accepted f s"
  have ready: "peer_ok s" "timers_ok s" "p \<notin> set ?rb" "distinct ?ps" "\<forall>x \<in> set ?ps. timed (heap s) x"
    "\<forall>x \<in> set (tlpSendQueue (link s Link1)). live_req (heap s) x"
    using assms(3) by (simp_all add: rx_ready_def)
  then have "\<forall>x \<in> set ?ps. timed (heap ?a) x" by simp
  then obtain h where h: "unpackTlps Link1 ?ps ?a = Some (upd_link Link1 (\<lambda>l.
        upd_stats (received ?a ?ps) (l\<lparr>tlpSendQueue := tlpSendQueue l @ ?ps\<rparr>)) (?a\<lparr>heap := h\<rparr>))"
      (is "_ = Some ?s4")
    and same: "\<And>x. x \<notin> set ?ps \<Longrightarrow> h x = heap s x" and live: "\<And>x. x \<in> set ?ps \<Longrightarrow> live_req h x"
    by (rule unpackTlps_timed [OF _ ready(4), where i = Link1]) auto
  have not_tlp: "x \<notin> set ?ps" if "heap s x = Some (FlitObj w)" for x w
    using that ready(5) by (auto simp: timed_def)
  have "live_req h x" if "x \<in> set (tlpSendQueue (link s Link1))" for x
    using that ready(6) live same live_req_eq [of h x "heap s"] by (cases "x \<in> set ?ps") auto
  then have d: "drainTlpSendQueue (sendReq mem_recvTimingReq) Link1 ?s4 = Some (drained Link1 ?s4)"
    using live by (intro drainTlpSendQueue_mem) auto
  define s5 where "s5 = drained Link1 ?s4"
  have s5: "heap s5 = h" "nextPtr s5 = nextPtr s" "curTick s5 = curTick s" "link s5 Link0 = link s Link0"
    by (simp_all add: s5_def drained_def Let_def)
  have rb: "heap s5 x = heap s x" if "x \<in> set ?rb" for x
    using that ready(1) same not_tlp s5(1) by (fastforce simp: peer_ok_def retry_ok_def)
  have "heap s5 x = None" if "nextPtr s \<le> x" for x
  proof -
    have "heap s x = None" using that ready(1) by (simp add: peer_ok_def)
    moreover from this have "x \<notin> set ?ps" using ready(5) by (auto simp: timed_def)
    ultimately show ?thesis by (simp add: same s5(1))
  qed
  then have "peer_ok s5" "timers_ok s5"
    using peer_cong [of s5 s, OF s5(4,3) rb] ready(1,2) s5(2) by (simp_all add: peer_ok_def)
  then obtain s6 where s6: "sendAck (rx_sendTimingResp Link1) Link1 (timestamp f) s5 = Some s6"
    "\<forall>x. x \<notin> set ?rb \<longrightarrow> heap s6 x = heap s5 x"
    using sendAck_ok [of s5 "timestamp f"] s5(4) by auto
  have hp: "h p = Some (FlitObj f)" using assms(1) same not_tlp by simp
  then have "heap s6 p = Some (FlitObj f)" using s6(2) ready(3) s5(1) by simp
  moreover have "flit_at (heap s5) p = Some f" using hp s5(1) by (simp add: flit_at_def)
  moreover have crc: "no_crc_error (link s Link1) f" and lock: "\<not> (rxWaitingForRetry (link s Link1) \<and> \<not> isRetransmission f)"
    using assms(2) by (auto simp: processable_def)
  ultimately show ?thesis
    using h d [folded s5_def] s6(1) assms(2) unfolding recv1_eq [OF assms(1)] Let_def if_not_P [OF lock]
    by (simp add: delete_obj_def)
qed

lemma recv_returns:
  assumes p: "heap s p = Some (FlitObj f)" and ready: "rx_ready p f s"
  shows "recv1 p s \<noteq> None"
proof -
  let ?l = "link s Link1"
  have r: "peer_ok s" "timers_ok s" "p \<notin> set (retryBuffer (link s Link0))"
    using ready by (simp_all add: rx_ready_def)
  consider (crc) "\<not> no_crc_error ?l f" | (locked) "no_crc_error ?l f" "rxWaitingForRetry ?l \<and> \<not> isRetransmission f"
    | (dup) "no_crc_error ?l f" "\<not> (rxWaitingForRetry ?l \<and> \<not> isRetransmission f)" "\<not> processable ?l f"
    | (new) "processable ?l f" by blast
  then show ?thesis
  proof cases
    case crc
    obtain g where "errorGapBits (errorRate ?l) = Some g" using crc ready by (auto simp: rx_ready_def no_crc_error_def)
    from recv_crc [OF p crc r(1,3) this] show ?thesis by auto
  next
    case locked
    then show ?thesis using p by (simp add: recv1_eq [OF p] Let_def delete_obj_def)
  next
    case dup
    from recv_duplicate [OF p dup r] show ?thesis by auto
  next
    case new
    from recv_new [OF p new ready] show ?thesis .
  qed
qed

lemma recv_exact:
  assumes p: "heap s p = Some (FlitObj f)" and run: "recv1 p s = Some (ok, s')"
  shows "ok \<and>
    (if processable (link s Link1) f
     then stream s' = stream s @ originalPackets f \<and>
       lastProcessedTimestamp (link s' Link1) = timestamp f \<and>
       rxFlitCounter (link s' Link1) = rxFlitCounter (link s Link1) + 1 \<and> \<not> rxWaitingForRetry (link s' Link1)
     else stream s' = stream s \<and>
       lastProcessedTimestamp (link s' Link1) = lastProcessedTimestamp (link s Link1) \<and>
       rxFlitCounter (link s' Link1) = rxFlitCounter (link s Link1) \<and>
       rxWaitingForRetry (link s' Link1) = (\<not> no_crc_error (link s Link1) f \<or>
         rxWaitingForRetry (link s Link1) \<and> \<not> isRetransmission f))"
proof -
  let ?l = "link s Link1"
  note r = run [unfolded recv1_eq [OF p] Let_def]
  consider (crc) "\<not> no_crc_error ?l f" | (locked) "no_crc_error ?l f" "rxWaitingForRetry ?l \<and> \<not> isRetransmission f"
    | (dup) "no_crc_error ?l f" "\<not> (rxWaitingForRetry ?l \<and> \<not> isRetransmission f)" "\<not> processable ?l f"
    | (new) "processable ?l f" by blast
  then show ?thesis
  proof cases
    case crc
    with r obtain g s3 where n: "sendNak (rx_sendTimingResp Link1) Link1 (timestamp f) (crc_locked g s) = Some s3"
      "delete_obj p s3 = Some s'" "ok" by (auto simp: Option.bind_eq_Some_conv)
    then have "rx_same (crc_locked g s) s'"
      using rx_same_sendNak [OF n(1)] keeps_delete [of _ s3 p] by (simp add: keeps_def)
    then show ?thesis using n(3) crc by (auto simp: rx_same_def stream_def recv_states processable_def)
  next
    case locked
    with r have "delete_obj p (counted s) = Some s'" "ok" by (auto simp: Option.bind_eq_Some_conv)
    then show ?thesis using locked keeps_delete [of "counted s" "counted s" p]
      by (auto simp: keeps_def rx_same_def stream_def recv_states processable_def)
  next
    case dup
    with r obtain s3 where n: "sendAck (rx_sendTimingResp Link1) Link1 (lastProcessedTimestamp ?l) (unlocked s) = Some s3"
      "delete_obj p s3 = Some s'" "ok" by (auto simp: Option.bind_eq_Some_conv split: if_splits)
    then have "rx_same (unlocked s) s'"
      using rx_same_sendAck [OF n(1)] keeps_delete [of _ s3 p] by (simp add: keeps_def)
    then show ?thesis using n(3) dup by (auto simp: rx_same_def stream_def recv_states)
  next
    case new
    then have c: "no_crc_error ?l f" "\<not> (rxWaitingForRetry ?l \<and> \<not> isRetransmission f)" by (auto simp: processable_def)
    have "(do { s4 \<leftarrow> unpackTlps Link1 (originalPackets f) (accepted f s);
         s5 \<leftarrow> drainTlpSendQueue (sendReq mem_recvTimingReq) Link1 s4;
         f1 \<leftarrow> flit_at (heap s5) p;
         s6 \<leftarrow> sendAck (rx_sendTimingResp Link1) Link1 (timestamp f1) s5;
         s7 \<leftarrow> delete_obj p s6;
         Some (True, s7) }) = Some (ok, s')"
      using r new c by (simp only: if_False simp_thms)
    then show ?thesis
    proof (elim bind_eq_SomeD)
      fix s4 s5 f1 s6 s7
      assume s4: "unpackTlps Link1 (originalPackets f) (accepted f s) = Some s4"
        and s5: "drainTlpSendQueue (sendReq mem_recvTimingReq) Link1 s4 = Some s5"
        and s6: "sendAck (rx_sendTimingResp Link1) Link1 (timestamp f1) s5 = Some s6"
        and s7: "delete_obj p s6 = Some s7" "Some (True, s7) = Some (ok, s')"
      have "rx_same s5 s'" using rx_same_sendAck [OF s6] keeps_delete [of s5 s6 p] s7 by (simp add: keeps_def)
      then have "rx_flow (accepted f s) (originalPackets f) s'"
        using unpackTlps_flow [OF s4] drainTlpSendQueue_flow [OF s5] rx_same_flow [of s5 s']
        by (simp add: rx_flow_def)
      then show ?thesis using new s7(2) by (simp add: rx_flow_def recv_states stream_def)
    qed
  qed
qed

section \<open>A second flit in one tick\<close>

text \<open>The sender sends a fresh flit in the tick of the last flit that the receiver processed.\<close>

definition same_tick :: "ptr \<Rightarrow> flit \<Rightarrow> sys \<Rightarrow> bool" where
  "same_tick orig f s \<longleftrightarrow> heap s orig = Some (FlitObj f) \<and> \<not> isRetransmission f \<and>
     orig \<notin> set (retryBuffer (link s Link0)) \<and> \<not> txBlocked (link s Link0) \<and> txCredits (link s Link0) \<noteq> 0 \<and>
     rxFlitCounter (link s Link1) \<noteq> 0 \<and> lastProcessedTimestamp (link s Link1) = curTick s \<and>
     errorRate (link s Link1) \<le> 0 \<and> \<not> rxWaitingForRetry (link s Link1) \<and> peer_ok s \<and> timers_ok s \<and>
     unat (curTick s) + unat (retryTimeoutDelay (link s Link0)) < 2 ^ 64"

lemma send_same_tick:
  assumes st: "same_tick orig f s" and q: "txSendQueue (link s Link0) = orig # rest"
  shows "\<exists>s'. processSendFlit (tx_sendTimingReq Link0) Link0 s = Some s' \<and> stream s' = stream s \<and>
    txSendQueue (link s' Link0) = rest \<and>
    retryBuffer (link s' Link0) = unacked Link0 (curTick s) s @ [orig] \<and>
    heap s' orig = Some (FlitObj (f\<lparr>timestamp := curTick s\<rparr>)) \<and>
    lastProcessedTimestamp (link s' Link1) = curTick s \<and> rxFlitCounter (link s' Link1) \<noteq> 0"
proof -
  let ?f1 = "f\<lparr>timestamp := curTick s\<rparr>" and ?wire = "nextPtr s" and ?rb = "retryBuffer (link s Link0)"
  have orig: "heap s orig = Some (FlitObj f)" "orig \<notin> set ?rb" and ok: "peer_ok s" "timers_ok s"
    using st by (simp_all add: same_tick_def)
  obtain w where w: "wireClone (curTick s) ?f1 = Some w" "timestamp w = curTick s" "\<not> isRetransmission w"
    "cmd w = WriteReq" using wireClone_eq [of "curTick s" ?f1] st by (auto simp: same_tick_def)
  define s2 where "s2 = s\<lparr>heap := (heap s)(orig \<mapsto> FlitObj ?f1, ?wire \<mapsto> FlitObj w), nextPtr := Suc ?wire\<rparr>"
  have s2: "link s2 = link s" "curTick s2 = curTick s" "env s2 = env s" "heap s2 ?wire = Some (FlitObj w)"
    "nextPtr s2 = Suc ?wire" by (simp_all add: s2_def)
  have wire: "?wire \<noteq> orig" "?wire \<notin> set ?rb" "heap s ?wire = None"
    using orig(1) peer_free [OF ok(1)] by auto
  have rb: "heap s2 p = heap s p" if "p \<in> set (retryBuffer (link s Link0))" for p
    using that orig(2) wire(2) by (auto simp: s2_def)
  note c = peer_cong [of s2 s, OF _ s2(2) rb]
  have "peer_ok s2" "timers_ok s2"
    using ok c(1-3) orig(1) by (auto simp: peer_ok_def s2_def)
  moreover have dup: "no_crc_error (link s2 Link1) w" "\<not> (rxWaitingForRetry (link s2 Link1) \<and> \<not> isRetransmission w)"
    "\<not> processable (link s2 Link1) w"
    using st w(2) by (auto simp: same_tick_def no_crc_error_def processable_def s2(1))
  ultimately obtain s3 where s3: "recv1 ?wire s2 = Some (True, s3)" "rx_same (unlocked s2) s3" "curTick s3 = curTick s"
    "txSendQueue (link s3 Link0) = orig # rest" "retryBuffer (link s3 Link0) = unacked Link0 (curTick s) s"
    "retryTimeoutDelay (link s3 Link0) = retryTimeoutDelay (link s Link0)"
    "\<forall>x. x \<noteq> ?wire \<and> x \<notin> set ?rb \<longrightarrow> heap s3 x = heap s2 x"
    using recv_duplicate [OF s2(4) dup] wire(2) c(4) st q s2(1,2) by (auto simp: same_tick_def)
  have h: "heap s3 orig = Some (FlitObj ?f1)" using s3(7) wire(1) orig(2) by (simp add: s2_def)
  have "unat (curTick s) + 1 < 2 ^ 64"
    using ok(1) by (auto simp: peer_ok_def clock_room_def word_less_nat_alt)
  then have t: "curTick s \<le> curTick s + 1" "curTick s \<le> curTick s + retryTimeoutDelay (link s Link0)"
    using st by (simp_all add: same_tick_def word_le_nat_alt unat_word_ariths)
  note sent = flitSent_eq [of s3 Link0, OF s3(4) h, unfolded s3(3,6), OF t]
  have "tx_sendTimingReq Link0 ?wire s2 = Some (True, s3)"
    using s3(1) s2(4) w(4) by (simp add: tx_sendTimingReq.simps sendReq_def cmd_at_def)
  then have run: "processSendFlit (tx_sendTimingReq Link0) Link0 s = flitSent Link0 orig s3"
    using st q orig(1) w(1)
    by (simp add: processSendFlit_def same_tick_def Let_def flit_at_def new_obj_def put_flit_def s2_def)
  have "stream s3 = stream s" "lastProcessedTimestamp (link s3 Link1) = curTick s" "rxFlitCounter (link s3 Link1) \<noteq> 0"
    using s3(2) st s2(1,3) by (simp_all add: rx_same_def same_tick_def stream_def recv_states)
  then show ?thesis
    unfolding run sent using s3(4,5) h by (auto simp: recordSent_def Let_def stream_def upd_stats_def)
qed

section \<open>Concrete states\<close>

text \<open>
  A flit with one TLP, sent at tick 5, and the state at tick 7 in which it is at address 0
  and also the only flit of the retry buffer, at address 1.
\<close>

definition demo_flit :: flit where
  "demo_flit = (aFlit 0 236 WriteReq 5 PROTOCOL)\<lparr>originalPackets := [7]\<rparr>"

lemma demo_flit_sel [simp]:
  "timestamp demo_flit = 5" "originalPackets demo_flit = [7]" "\<not> isRetransmission demo_flit"
  by (simp_all add: demo_flit_def newFlit_eval)

definition demo_state :: "sys \<Rightarrow> sys" where
  "demo_state s0 = upd_link Link0 (\<lambda>l. l\<lparr>retryBuffer := [1], txCredits := 31\<rparr>)
     (s0\<lparr>heap := [0 \<mapsto> FlitObj demo_flit, 1 \<mapsto> FlitObj demo_flit,
        7 \<mapsto> PktObj (write64\<lparr>senderState := [UcieTimerState 1]\<rparr>)], nextPtr := 8, curTick := 7\<rparr>)"

lemma demo_state_sel:
  "heap (demo_state s0) 0 = Some (FlitObj demo_flit)" "flit_at (heap (demo_state s0)) 1 = Some demo_flit"
  "retryBuffer (link (demo_state s0) Link0) = [1]" "txCredits (link (demo_state s0) Link0) = 31"
  by (simp_all add: demo_state_def flit_at_def)

lemmas demo_ok = demo_simps demo_state_def peer_ok_def timers_ok_def timer_due_def retry_ok_def clock_room_def
  clock_ok_def flit_at_def rx_ready_def timed_def stream_def processable_def no_crc_error_def

lemma demo_receive:
  obtains s where "heap s 0 = Some (FlitObj demo_flit)" "rx_ready 0 demo_flit s"
    "processable (link s Link1) demo_flit" "stream s = []"
proof -
  have "\<exists>s0. sys_init default_params default_params = Some s0 \<and> rx_ready 0 demo_flit (demo_state s0) \<and>
      processable (link (demo_state s0) Link1) demo_flit \<and> stream (demo_state s0) = []"
    by (simp add: demo_ok)
  then show ?thesis using that demo_state_sel by blast
qed

lemma demo_crc:
  obtains s where "heap s 0 = Some (FlitObj demo_flit)" "\<not> no_crc_error (link s Link1) demo_flit" "peer_ok s"
    "retryBuffer (link s Link0) = [1]" "flit_at (heap s) 1 = Some demo_flit"
    "errorGapBits (errorRate (link s Link1)) = Some 2048" "nextErrorAtBits (link s Link1) = 2048"
    "txSendQueue (link s Link0) = []"
proof -
  have "\<exists>s0. sys_init default_params (default_params\<lparr>error_rate := 1\<rparr>) = Some s0 \<and>
      \<not> no_crc_error (link (demo_state s0) Link1) demo_flit \<and> peer_ok (demo_state s0) \<and>
      errorGapBits (errorRate (link (demo_state s0) Link1)) = Some 2048 \<and>
      nextErrorAtBits (link (demo_state s0) Link1) = 2048 \<and> txSendQueue (link (demo_state s0) Link0) = []"
    by (simp add: demo_ok)
  then show ?thesis using that demo_state_sel by blast
qed

lemma demo_ready:
  obtains s where "retry_ok Link0 s" "clock_room Link0 s" "timers_ok s" "retryBuffer (link s Link0) = [1]"
    "flit_at (heap s) 1 = Some demo_flit" "txSendQueue (link s Link0) = []" "txCredits (link s Link0) = 31"
    "creditPool (link s Link0) = 32"
proof -
  have "\<exists>s0. sys_init default_params default_params = Some s0 \<and> retry_ok Link0 (demo_state s0) \<and>
      clock_room Link0 (demo_state s0) \<and> timers_ok (demo_state s0) \<and> txSendQueue (link (demo_state s0) Link0) = [] \<and>
      creditPool (link (demo_state s0) Link0) = 32"
    by (simp add: demo_ok)
  then show ?thesis using that demo_state_sel by blast
qed

lemma demo_same_tick:
  obtains s where "same_tick 0 demo_flit s" "txSendQueue (link s Link0) = [0]" "stream s = []"
    "unacked Link0 (curTick s) s = []"
proof -
  let ?s = "\<lambda>s0. upd_link Link1 (\<lambda>l. l\<lparr>lastProcessedTimestamp := 7, rxFlitCounter := 1\<rparr>)
    (upd_link Link0 (\<lambda>l. l\<lparr>txSendQueue := [0]\<rparr>) (demo_state s0))"
  have "\<exists>s0. sys_init default_params default_params = Some s0 \<and> same_tick 0 demo_flit (?s s0) \<and>
      stream (?s s0) = [] \<and> unacked Link0 (curTick (?s s0)) (?s s0) = []"
    by (simp add: demo_ok same_tick_def unacked_def)
  then obtain s0 where "same_tick 0 demo_flit (?s s0)" "stream (?s s0) = []"
    "unacked Link0 (curTick (?s s0)) (?s s0) = []" by blast
  then show ?thesis by (intro that [of "?s s0"]) simp_all
qed

section \<open>Properties\<close>

text \<open>
  C4: What the receiver does with a flit, in any state and with any error injection, is
  exactly this. If the flit has no CRC error, is a retransmission when the receiver waits for
  one, and is newer than every flit processed before, its TLPs follow the earlier ones in order
  and the receiver waits no longer. Otherwise nothing is delivered and the receiver
  keeps its place; it waits for a retransmission after a CRC error, and while it already waits and the
  flit is not one. The call returns whenever the flit, the TLPs and the sender are
  well formed and no retry timer is overdue.
\<close>

theorem receive_in_order:
  assumes "heap s p = Some (FlitObj f)"
  shows "(\<forall>ok s'. rx_recvTimingReq (sendReq mem_recvTimingReq) (rx_sendTimingResp Link1) Link1 p s = Some (ok, s') \<longrightarrow>
      ok \<and>
      (if processable (link s Link1) f
       then stream s' = stream s @ originalPackets f \<and>
         lastProcessedTimestamp (link s' Link1) = timestamp f \<and>
         rxFlitCounter (link s' Link1) = rxFlitCounter (link s Link1) + 1 \<and> \<not> rxWaitingForRetry (link s' Link1)
       else stream s' = stream s \<and>
         lastProcessedTimestamp (link s' Link1) = lastProcessedTimestamp (link s Link1) \<and>
         rxFlitCounter (link s' Link1) = rxFlitCounter (link s Link1) \<and>
         rxWaitingForRetry (link s' Link1) = (\<not> no_crc_error (link s Link1) f \<or>
           rxWaitingForRetry (link s Link1) \<and> \<not> isRetransmission f))) \<and>
    (rx_ready p f s \<longrightarrow>
      rx_recvTimingReq (sendReq mem_recvTimingReq) (rx_sendTimingResp Link1) Link1 p s \<noteq> None)"
  using recv_exact [OF assms] recv_returns [OF assms] by blast

theorem receive_in_order_witness:
  "\<exists>s s' f. heap s 0 = Some (FlitObj f) \<and> timestamp f = 5 \<and> originalPackets f = [7] \<and>
     rx_recvTimingReq (sendReq mem_recvTimingReq) (rx_sendTimingResp Link1) Link1 0 s = Some (True, s') \<and>
     stream s = [] \<and> stream s' = [7] \<and> lastProcessedTimestamp (link s' Link1) = 5"
proof -
  obtain s where s: "heap s 0 = Some (FlitObj demo_flit)" "rx_ready 0 demo_flit s"
    "processable (link s Link1) demo_flit" "stream s = []"
    by (rule demo_receive)
  note r = receive_in_order [OF s(1)]
  obtain ok s' where run: "recv1 0 s = Some (ok, s')" using r s(2) by auto
  with r s(3,4) have "ok" "stream s' = [7]" "lastProcessedTimestamp (link s' Link1) = 5" by auto
  then show ?thesis using s(1,4) run by (intro exI [of _ s] exI [of _ s'] exI [of _ demo_flit]) simp
qed

text \<open>
  C9: A CRC error locks the receiver and sends the sender back, for every flit and every
  state in which the injected error is due: the flit is deleted, nothing is delivered, the
  receiver waits for a retransmission, the next error is due one gap later, and the sender
  stops taking TLPs, has put the flits of its retry buffer from the failed one on in front of its send
  queue, marked as retransmissions, and has scheduled the next send with the retry timer off.
\<close>

theorem crc_error_replay:
  assumes "heap s p = Some (FlitObj f)" and "\<not> no_crc_error (link s Link1) f" and "peer_ok s"
    and "p \<notin> set (retryBuffer (link s Link0))" and "errorGapBits (errorRate (link s Link1)) = Some g"
  shows "\<exists>s'. rx_recvTimingReq (sendReq mem_recvTimingReq) (rx_sendTimingResp Link1) Link1 p s = Some (True, s') \<and>
    heap s' p = None \<and> stream s' = stream s \<and>
    rxWaitingForRetry (link s' Link1) \<and> nextErrorAtBits (link s' Link1) = nextErrorAtBits (link s Link1) + g \<and>
    lastProcessedTimestamp (link s' Link1) = lastProcessedTimestamp (link s Link1) \<and>
    linkState (link s' Link0) = RETRAIN \<and> retryBuffer (link s' Link0) = [] \<and>
    txSendQueue (link s' Link0) = replayed (timestamp f) s @ txSendQueue (link s Link0) \<and>
    scheduled (SendFlit Link0) s' \<and> \<not> scheduled (RetryTimeout Link0) s' \<and>
    (\<forall>q \<in> set (replayed (timestamp f) s). heap s' q =
      Some (FlitObj ((the (flit_at (heap s) q))\<lparr>isRetransmission := True\<rparr>)))"
proof -
  obtain s' where s': "recv1 p s = Some (True, s')" "rx_same (crc_locked g s) s'" "heap s' p = None"
    "linkState (link s' Link0) = RETRAIN" "retryBuffer (link s' Link0) = []"
    "txSendQueue (link s' Link0) = replayed (timestamp f) s @ txSendQueue (link s Link0)"
    "scheduled (SendFlit Link0) s'" "\<not> scheduled (RetryTimeout Link0) s'"
    "\<forall>q \<in> set (replayed (timestamp f) s). heap s' q =
      Some (FlitObj ((the (flit_at (heap s) q))\<lparr>isRetransmission := True\<rparr>))"
    using recv_crc [OF assms] by blast
  moreover have "stream s' = stream s" "rxWaitingForRetry (link s' Link1)"
    "nextErrorAtBits (link s' Link1) = nextErrorAtBits (link s Link1) + g"
    "lastProcessedTimestamp (link s' Link1) = lastProcessedTimestamp (link s Link1)"
    using s'(2) by (simp_all add: rx_same_def recv_states stream_def)
  ultimately show ?thesis by blast
qed

theorem crc_error_replay_witness:
  "\<exists>s s'. retryBuffer (link s Link0) = [1] \<and>
     rx_recvTimingReq (sendReq mem_recvTimingReq) (rx_sendTimingResp Link1) Link1 0 s = Some (True, s') \<and>
     rxWaitingForRetry (link s' Link1) \<and> txSendQueue (link s' Link0) = [1] \<and>
     nextErrorAtBits (link s' Link1) = 4096 \<and> linkState (link s' Link0) = RETRAIN"
proof -
  obtain s where s: "heap s 0 = Some (FlitObj demo_flit)" "\<not> no_crc_error (link s Link1) demo_flit" "peer_ok s"
    "retryBuffer (link s Link0) = [1]" "flit_at (heap s) 1 = Some demo_flit"
    "errorGapBits (errorRate (link s Link1)) = Some 2048" "nextErrorAtBits (link s Link1) = 2048"
    "txSendQueue (link s Link0) = []"
    by (rule demo_crc)
  have "0 \<notin> set (retryBuffer (link s Link0))" "replayed 5 s = [1]" using s(4,5) by (simp_all add: replayed_def)
  then show ?thesis using crc_error_replay [OF s(1-3) _ s(6)] s(4,7,8) by fastforce
qed

text \<open>
  C7: A negative acknowledgement makes the sender go back: the flits of the retry
  buffer that are older than the failed one are deleted, all others are put in front of the send
  queue in their order and marked as retransmissions, the retry buffer is empty, the link
  stops taking TLPs, sending is scheduled and the retry timer is off. The number of
  credits does not change.
\<close>

theorem nak_replays:
  assumes "retry_ok i s" and "clock_room i s"
  shows "\<exists>s'. processNak i t s = Some s' \<and>
    (let old = takeWhile (\<lambda>p. timestamp (the (flit_at (heap s) p)) < t) (retryBuffer (link s i));
         new = dropWhile (\<lambda>p. timestamp (the (flit_at (heap s) p)) < t) (retryBuffer (link s i)) in
     txSendQueue (link s' i) = new @ txSendQueue (link s i) \<and> retryBuffer (link s' i) = [] \<and>
     linkState (link s' i) = RETRAIN \<and> txCredits (link s' i) = txCredits (link s i) \<and>
     scheduled (SendFlit i) s' \<and> \<not> scheduled (RetryTimeout i) s' \<and>
     (\<forall>p \<in> set old. heap s' p = None) \<and>
     (\<forall>p \<in> set new. heap s' p =
       Some (FlitObj ((the (flit_at (heap s) p))\<lparr>isRetransmission := True\<rparr>))))"
  using processNak_ok [OF assms] unfolding Let_def by blast

theorem nak_replays_witness:
  "\<exists>s s'. retryBuffer (link s Link0) = [1] \<and> processNak Link0 5 s = Some s' \<and>
     txSendQueue (link s' Link0) = [1] \<and> retryBuffer (link s' Link0) = [] \<and> linkState (link s' Link0) = RETRAIN"
proof -
  obtain s where s: "retry_ok Link0 s" "clock_room Link0 s" "retryBuffer (link s Link0) = [1]"
    "flit_at (heap s) 1 = Some demo_flit" "txSendQueue (link s Link0) = []" by (rule demo_ready)
  obtain s' where "processNak Link0 5 s = Some s'" "txSendQueue (link s' Link0) = [1]"
    "retryBuffer (link s' Link0) = []" "linkState (link s' Link0) = RETRAIN"
    using nak_replays [OF s(1,2), of 5] s(3-5) by (auto simp: Let_def)
  then show ?thesis using s(3) by blast
qed

text \<open>
  C8: An acknowledgement retires exactly the flits of the retry buffer up to its
  timestamp and returns one credit for each of them, but never more than the pool. The retry
  timer is then pending for the oldest flit that is left, at its timestamp plus the timeout, and
  for no other tick, and is off when no flit is left; a sender that was blocked is unblocked
  and sends again if it has a credit, and stays blocked otherwise; the link leaves the replay
  when no flit is left. The clock of the link must have room for two more cycles, and the
  oldest flit that is left must not have timed out yet.
\<close>

theorem ack_retires:
  assumes "retry_ok i s" and "clock_room i s"
    and "unacked i t s \<noteq> [] \<Longrightarrow> curTick s \<le> timer_due i s (hd (unacked i t s))"
  shows "\<exists>s'. processAck i t s = Some s' \<and> retryBuffer (link s' i) = unacked i t s \<and>
    txCredits (link s' i) = min (txCredits (link s i) + of_nat (length (acknowledged i t s))) (creditPool (link s i)) \<and>
    (\<forall>p. heap s' p = (if p \<in> set (acknowledged i t s) then None else heap s p)) \<and>
    (\<forall>k. (k, RetryTimeout i) \<in> set (eventq s') \<longleftrightarrow>
      unacked i t s \<noteq> [] \<and> k = (timer_due i s (hd (unacked i t s)), 0)) \<and>
    txBlocked (link s' i) = (txBlocked (link s i) \<and> txCredits (link s' i) = 0) \<and>
    scheduled (SendFlit i) s' = (scheduled (SendFlit i) s \<or> txBlocked (link s i) \<and> txCredits (link s' i) \<noteq> 0) \<and>
    linkState (link s' i) =
      (if unacked i t s = [] \<and> linkState (link s i) = RETRAIN then ACTIVE else linkState (link s i))"
  using processAck_ok [OF assms] by blast

theorem ack_retires_witness:
  "\<exists>s s'. retryBuffer (link s Link0) = [1] \<and> txCredits (link s Link0) = 31 \<and>
     processAck Link0 5 s = Some s' \<and> retryBuffer (link s' Link0) = [] \<and> txCredits (link s' Link0) = 32 \<and> heap s' 1 = None"
proof -
  obtain s where s: "retry_ok Link0 s" "clock_room Link0 s" "timers_ok s" "retryBuffer (link s Link0) = [1]"
    "flit_at (heap s) 1 = Some demo_flit" "txCredits (link s Link0) = 31" "creditPool (link s Link0) = 32"
    by (rule demo_ready)
  have a: "unacked Link0 5 s = []" "acknowledged Link0 5 s = [1]"
    using s(4,5) by (simp_all add: unacked_def acknowledged_def)
  from ack_retires [OF s(1,2) timers_hd [OF s(3)], of 5] obtain s' where "processAck Link0 5 s = Some s'"
    "retryBuffer (link s' Link0) = []" "txCredits (link s' Link0) = 32" "heap s' 1 = None"
    using s(6,7) a by auto
  then show ?thesis using s(4,6) by blast
qed

text \<open>
  C36: Flits must not be sent in the same tick: without injected errors, a fresh flit that
  is sent in the tick of the last flit that the receiver processed is taken for a duplicate. The
  sender counts it as sent and moves it to the retry buffer, but nothing is delivered, and since
  it keeps its timestamp, sending it again does not deliver it either.
\<close>

theorem same_tick_dropped:
  assumes "same_tick orig f s" and "txSendQueue (link s Link0) = orig # rest"
  shows "\<exists>s' g. processSendFlit (tx_sendTimingReq Link0) Link0 s = Some s' \<and> stream s' = stream s \<and>
    txSendQueue (link s' Link0) = rest \<and>
    retryBuffer (link s' Link0) = unacked Link0 (curTick s) s @ [orig] \<and>
    heap s' orig = Some (FlitObj g) \<and> originalPackets g = originalPackets f \<and>
    \<not> processable (link s' Link1) g \<and> \<not> processable (link s' Link1) (g\<lparr>isRetransmission := True\<rparr>)"
proof -
  obtain s' where s': "processSendFlit (tx_sendTimingReq Link0) Link0 s = Some s'" "stream s' = stream s"
    "txSendQueue (link s' Link0) = rest" "retryBuffer (link s' Link0) = unacked Link0 (curTick s) s @ [orig]"
    "heap s' orig = Some (FlitObj (f\<lparr>timestamp := curTick s\<rparr>))"
    "lastProcessedTimestamp (link s' Link1) = curTick s" "rxFlitCounter (link s' Link1) \<noteq> 0"
    using send_same_tick [OF assms] by blast
  then show ?thesis
    by (intro exI [of _ s'] exI [of _ "f\<lparr>timestamp := curTick s\<rparr>"]) (simp add: processable_def)
qed

theorem same_tick_dropped_witness:
  "\<exists>s s'. txSendQueue (link s Link0) = [0] \<and> processSendFlit (tx_sendTimingReq Link0) Link0 s = Some s' \<and>
     stream s' = [] \<and> txSendQueue (link s' Link0) = [] \<and> retryBuffer (link s' Link0) = [0]"
proof -
  obtain s where s: "same_tick 0 demo_flit s" "txSendQueue (link s Link0) = [0]" "stream s = []"
    "unacked Link0 (curTick s) s = []" by (rule demo_same_tick)
  from same_tick_dropped [OF s(1,2)] show ?thesis using s(2-4) by auto
qed

text \<open>
  Such states occur: with the default parameters, a TLP of 456 bytes at tick 0 and one of 64
  bytes at tick 49001 give a third flit in the tick of the second one, and the second TLP is lost.
\<close>

definition write456 :: packet where
  "write456 = the (mkPacket (mkRequest 0 1024 456 0 0) WriteReq)"

lemma write456_sel: "getSize write456 = Some 456" "cmd write456 = WriteReq" "senderState write456 = []"
  by code_simp+

lemma delay456: "startDelayTicks 4 16 472 = Some 75500"
  by code_simp

lemma same_tick_loss:
  "\<exists>s0 s. sys_init default_params default_params = Some s0 \<and>
     exec act [MemGrant 9, CpuReq write456, Advance 49001, CpuReq write64, Serve, Serve, Serve, Serve, Serve, Serve] s0 = Some s \<and>
     eventq s = [] \<and> length (cpuSent (env s)) = 2 \<and> memTaken (env s) = [hd (cpuSent (env s))]"
  by (simp add: demo_simps write456_sel delay456)

lemma blocked_forever:
  assumes "txBlocked (link s Link0)" and "eventq s = [((t, 0), RetryTimeout Link0)]"
    and "unat t + n * unat (retryTimeoutDelay (link s Link0)) < 2 ^ 64"
  shows "\<exists>s'. exec act (replicate n Serve) s = Some s' \<and> env s' = env s \<and> txBlocked (link s' Link0)"
  using assms
proof (induction n arbitrary: s t)
  case 0
  then show ?case by simp
next
  case (Suc n)
  let ?d = "retryTimeoutDelay (link s Link0)"
  have u: "unat (t + ?d) = unat t + unat ?d" using Suc.prems(3) by (intro unat_add_small) simp
  then have le: "t \<le> t + ?d" by (simp add: word_le_nat_alt)
  let ?s = "s\<lparr>eventq := [((t + ?d, 0), RetryTimeout Link0)], curTick := t\<rparr>"
  have "act Serve s = Some ?s"
    using Suc.prems(1,2) le
    by (simp add: processRetryTimeout_def schedule_unless_def schedule_def scheduled_def)
  moreover have "unat (t + ?d) + n * unat ?d < 2 ^ 64"
    using Suc.prems(3) unfolding u by (simp only: mult_Suc add.assoc)
  then have "\<exists>s'. exec act (replicate n Serve) ?s = Some s' \<and> env s' = env ?s \<and> txBlocked (link s' Link0)"
    using Suc.prems(1) by (intro Suc.IH [of _ "t + ?d"]) simp_all
  ultimately show ?case by simp
qed

text \<open>
  C37: One credit is not enough: with a pool of one credit, no injected errors and a TLP
  of two flits, the second flit is never sent, however many events are served; the credit of
  the first flit only comes back with a probe, which the blocked sender does not send.
\<close>

theorem single_credit_deadlock:
  assumes "100500 + n * 25000 < (2 :: nat) ^ 64"
  shows "\<exists>s0 s. sys_init (default_params\<lparr>credit_pool := 1\<rparr>) default_params = Some s0 \<and>
     exec act ([MemGrant 9, CpuReq write456, Serve, Serve] @ replicate n Serve) s0 = Some s \<and>
     cpuSent (env s) = [0] \<and> memTaken (env s) = [] \<and> txBlocked (link s Link0)"
proof -
  have "\<exists>s0 s1. sys_init (default_params\<lparr>credit_pool := 1\<rparr>) default_params = Some s0 \<and>
     exec act [MemGrant 9, CpuReq write456, Serve, Serve] s0 = Some s1 \<and>
     cpuSent (env s1) = [0] \<and> memTaken (env s1) = [] \<and> txBlocked (link s1 Link0) \<and>
     eventq s1 = [((100500, 0), RetryTimeout Link0)] \<and> retryTimeoutDelay (link s1 Link0) = 25000"
    by (simp add: demo_simps write456_sel delay456)
  then obtain s0 s1 where s1: "sys_init (default_params\<lparr>credit_pool := 1\<rparr>) default_params = Some s0"
    "exec act [MemGrant 9, CpuReq write456, Serve, Serve] s0 = Some s1"
    "cpuSent (env s1) = [0]" "memTaken (env s1) = []" "txBlocked (link s1 Link0)"
    "eventq s1 = [((100500, 0), RetryTimeout Link0)]" "retryTimeoutDelay (link s1 Link0) = 25000" by blast
  obtain s where s: "exec act (replicate n Serve) s1 = Some s" "env s = env s1" "txBlocked (link s Link0)"
    using blocked_forever [OF s1(5,6), of n] s1(7) assms by auto
  have "exec act ([MemGrant 9, CpuReq write456, Serve, Serve] @ replicate n Serve) s0 = Some s"
    unfolding exec_append s1(2) using s(1) by simp
  moreover have "cpuSent (env s) = [0]" "memTaken (env s) = []" using s(2) s1(3,4) by simp_all
  ultimately show ?thesis using s(3) s1(1) by blast
qed

theorem single_credit_deadlock_witness:
  "\<exists>s0 s. sys_init (default_params\<lparr>credit_pool := 1\<rparr>) default_params = Some s0 \<and>
     exec act ([MemGrant 9, CpuReq write456, Serve, Serve] @ replicate 1000 Serve) s0 = Some s \<and>
     memTaken (env s) = [] \<and> cpuSent (env s) = [0]"
proof -
  have "100500 + 1000 * 25000 < (2 :: nat) ^ 64" by simp
  from single_credit_deadlock [OF this] show ?thesis by blast
qed

end
