(* ===== verification/EventQueue.thy ===== *)
theory EventQueue
  imports EventOrder Flags
begin

text \<open>
  Classes \<open>Event\<close> and \<open>EventQueue\<close> of \<open>sim/eventq.hh\<close> and
  \<open>sim/eventq.cc\<close>. The queue is a linked list of bins, one for each tick and
  priority, and each bin is a stack linked through \<open>nextInBin\<close>. The event objects
  are a store from addresses to records; the loops over the links are partial
  functions, for which \<open>None\<close> also stands for not returning. The theory shows
  that the linked bins implement the sorted list of \<open>EventOrder\<close>: every operation
  of the code returns on a well-formed queue and acts as the operation of the list.

  The debug build is modelled (\<open>NDEBUG\<close> undefined), with one queue and the threads'
  variables \<open>inParallelMode\<close> and \<open>curEventQueue\<close> as members of the state. The
  two mutexes have no state of their own: a state is what the owner of the locks sees.
\<close>

section \<open>Events\<close>

type_synonym evptr = nat
type_synonym eqptr = nat

record event =
  nextBin :: "evptr option"
  nextInBin :: "evptr option"
  ev_when :: Tick
  priority :: int
  eflags :: u16
  queue :: "eqptr option"

definition PublicRead :: u16 where "PublicRead = 0x003f"
definition PublicWrite :: u16 where "PublicWrite = 0x001d"
definition Squashed :: u16 where "Squashed = 0x0001"
definition Scheduled :: u16 where "Scheduled = 0x0002"
definition Managed :: u16 where "Managed = 0x0004"
definition IsExitEvent :: u16 where "IsExitEvent = 0x0010"
definition IsMainQueue :: u16 where "IsMainQueue = 0x0020"
definition Initialized :: u16 where "Initialized = 0x7a40"
definition InitMask :: u16 where "InitMask = 0xffc0"

definition initialized :: "event \<Rightarrow> bool" where
  "initialized e = (eflags e AND InitMask = Initialized)"

definition scheduled :: "event \<Rightarrow> bool" where
  "scheduled e = isSet (eflags e) Scheduled"

definition squashed :: "event \<Rightarrow> bool" where
  "squashed e = isSet (eflags e) Squashed"

definition isExitEvent :: "event \<Rightarrow> bool" where
  "isExitEvent e = isSet (eflags e) IsExitEvent"

definition isManaged :: "event \<Rightarrow> bool" where
  "isManaged e = isSet (eflags e) Managed"

definition squash :: "event \<Rightarrow> event" where
  "squash e = e\<lparr>eflags := set_flags Squashed (eflags e)\<rparr>"

definition getFlags :: "event \<Rightarrow> u16" where
  "getFlags e = eflags e AND PublicRead"

definition isFlagSet :: "u16 \<Rightarrow> event \<Rightarrow> bool option" where
  "isFlagSet f e = do { check (noneSet f (NOT PublicRead)); Some (isSet (eflags e) f) }"

definition setFlags :: "u16 \<Rightarrow> event \<Rightarrow> event option" where
  "setFlags f e = do {
     check (noneSet f (NOT PublicWrite));
     Some (e\<lparr>eflags := set_flags f (eflags e)\<rparr>) }"

definition clearFlags :: "u16 \<Rightarrow> event \<Rightarrow> event option" where
  "clearFlags f e = do {
     check (noneSet f (NOT PublicWrite));
     Some (e\<lparr>eflags := clear f (eflags e)\<rparr>) }"

definition clearPublicFlags :: "event \<Rightarrow> event" where
  "clearPublicFlags e = e\<lparr>eflags := clear PublicWrite (eflags e)\<rparr>"

definition newEvent :: "int \<Rightarrow> u16 \<Rightarrow> event option" where
  "newEvent p f = do {
     check (noneSet f (NOT PublicWrite));
     Some \<lparr>nextBin = None, nextInBin = None, ev_when = 0, priority = p,
           eflags = Initialized OR f, queue = None\<rparr> }"

definition wrapperEvent :: "bool \<Rightarrow> int \<Rightarrow> event option" where
  "wrapperEvent del p = do {
     e \<leftarrow> newEvent p 0;
     if del then setFlags Managed e else Some e }"

definition setWhen :: "Tick \<Rightarrow> eqptr \<Rightarrow> event \<Rightarrow> event" where
  "setWhen w q e = e\<lparr>ev_when := w, queue := Some q\<rparr>"

definition ekey :: "event \<Rightarrow> evkey" where
  "ekey e = (ev_when e, priority e)"

text \<open>Checkpoints: the three values that are written for an event.\<close>

record event_checkpoint =
  cp_when :: Tick
  cp_priority :: int
  cp_flags :: u16

definition serialize :: "event \<Rightarrow> event_checkpoint" where
  "serialize e = \<lparr>cp_when = ev_when e, cp_priority = priority e, cp_flags = eflags e\<rparr>"

definition unserialize :: "event_checkpoint \<Rightarrow> event \<Rightarrow> event option" where
  "unserialize cp e = do {
     check (\<not> scheduled e);
     let e = e\<lparr>ev_when := cp_when cp, priority := cp_priority cp\<rparr>;
     check (initialized e);
     let f = set_flags Initialized (cp_flags cp);
     Some (e\<lparr>eflags := if isSet f Scheduled \<and> \<not> isSet f Squashed
                        then clear (Squashed OR Scheduled) f else f\<rparr>) }"

section \<open>The queue\<close>

type_synonym store = "evptr \<rightharpoonup> event"

record event_queue =
  events :: store
  head :: "evptr option"
  now :: Tick
  async_queue :: "evptr list"
  self :: eqptr
  inParallelMode :: bool
  curEventQueue :: "eqptr option"

definition mkEventQueue :: "eqptr \<Rightarrow> store \<Rightarrow> event_queue" where
  "mkEventQueue q st = \<lparr>events = st, head = None, now = 0, async_queue = [], self = q,
     inParallelMode = False, curEventQueue = Some q\<rparr>"

definition upd_event :: "evptr \<Rightarrow> (event \<Rightarrow> event) \<Rightarrow> store \<Rightarrow> store option" where
  "upd_event p f st = (case st p of None \<Rightarrow> None | Some e \<Rightarrow> Some (st(p \<mapsto> f e)))"

definition upd_flags :: "evptr \<Rightarrow> (u16 \<Rightarrow> u16) \<Rightarrow> event_queue \<Rightarrow> event_queue option" where
  "upd_flags p f s = do {
     st \<leftarrow> upd_event p (\<lambda>e. e\<lparr>eflags := f (eflags e)\<rparr>) (events s);
     Some (s\<lparr>events := st\<rparr>) }"

definition empty_queue :: "event_queue \<Rightarrow> bool" where
  "empty_queue s = (head s = None)"

definition nextTick :: "event_queue \<Rightarrow> Tick option" where
  "nextTick s = do { h \<leftarrow> head s; e \<leftarrow> events s h; Some (ev_when e) }"

definition setCurTick :: "Tick \<Rightarrow> event_queue \<Rightarrow> event_queue" where
  "setCurTick t s = s\<lparr>now := t\<rparr>"

definition replaceHead :: "evptr option \<Rightarrow> event_queue \<Rightarrow> evptr option \<times> event_queue" where
  "replaceHead s' s = (head s, s\<lparr>head := s'\<rparr>)"

text \<open>\<open>releaseImpl\<close> deletes a managed event that is not scheduled again;
  \<open>acquireImpl\<close> does nothing.\<close>

definition release :: "evptr \<Rightarrow> event_queue \<Rightarrow> event_queue option" where
  "release p s = do {
     e \<leftarrow> events s p;
     Some (if isManaged e \<and> \<not> scheduled e then s\<lparr>events := (events s)(p := None)\<rparr> else s) }"

definition acquire :: "evptr \<Rightarrow> event_queue \<Rightarrow> event_queue option" where
  "acquire p s = do { e \<leftarrow> events s p; Some s }"

text \<open>\<open>Event::insertBefore\<close>: the event becomes the top of a bin.\<close>

definition insertBefore :: "evptr \<Rightarrow> evptr option \<Rightarrow> store \<Rightarrow> store option" where
  "insertBefore event cur st = do {
     e \<leftarrow> st event;
     case cur of
       None \<Rightarrow> Some (st(event \<mapsto> e\<lparr>nextBin := None, nextInBin := None\<rparr>))
     | Some c \<Rightarrow> do {
         ce \<leftarrow> st c;
         if ev_less (ekey e) (ekey ce)
         then Some (st(event \<mapsto> e\<lparr>nextBin := Some c, nextInBin := None\<rparr>))
         else Some (st(event \<mapsto> e\<lparr>nextBin := nextBin ce, nextInBin := Some c\<rparr>)) } }"

text \<open>The loop over the tops of the bins that \<open>insert\<close> and \<open>remove\<close> share.\<close>

partial_function (option) findBin ::
    "store \<Rightarrow> evkey \<Rightarrow> evptr \<Rightarrow> evptr option \<Rightarrow> (evptr \<times> evptr option) option" where
  "findBin st k prev cur = (case cur of
       None \<Rightarrow> Some (prev, None)
     | Some c \<Rightarrow> do {
         ce \<leftarrow> st c;
         if ev_less (ekey ce) k then findBin st k c (nextBin ce) else Some (prev, cur) })"

definition insert_event :: "evptr \<Rightarrow> event_queue \<Rightarrow> event_queue option" where
  "insert_event event s = do {
     e \<leftarrow> events s event;
     case head s of
       None \<Rightarrow> do {
         st \<leftarrow> insertBefore event None (events s);
         Some (s\<lparr>events := st, head := Some event\<rparr>) }
     | Some h \<Rightarrow> do {
         he \<leftarrow> events s h;
         if ev_le (ekey e) (ekey he) then do {
           st \<leftarrow> insertBefore event (Some h) (events s);
           Some (s\<lparr>events := st, head := Some event\<rparr>) }
         else do {
           (prev, cur) \<leftarrow> findBin (events s) (ekey e) h (nextBin he);
           st \<leftarrow> insertBefore event cur (events s);
           st \<leftarrow> upd_event prev (\<lambda>pe. pe\<lparr>nextBin := Some event\<rparr>) st;
           Some (s\<lparr>events := st\<rparr>) } } }"

text \<open>The loop of \<open>removeItem\<close> over one bin.\<close>

partial_function (option) findInBin ::
    "store \<Rightarrow> evptr \<Rightarrow> evptr \<Rightarrow> evptr option \<Rightarrow> (evptr \<times> evptr) option" where
  "findInBin st event cur next = do {
     n \<leftarrow> next;
     if event = n then Some (cur, n)
     else do { ne \<leftarrow> st n; findInBin st event n (nextInBin ne) } }"

definition removeItem :: "evptr \<Rightarrow> evptr \<Rightarrow> store \<Rightarrow> (evptr option \<times> store) option" where
  "removeItem event top_ev st = do {
     te \<leftarrow> st top_ev;
     if event = top_ev then
       (case nextInBin te of
          None \<Rightarrow> Some (nextBin te, st)
        | Some n \<Rightarrow> do {
            st \<leftarrow> upd_event n (\<lambda>ne. ne\<lparr>nextBin := nextBin te\<rparr>) st;
            Some (Some n, st) })
     else do {
       (cur, n) \<leftarrow> findInBin st event top_ev (nextInBin te);
       ne \<leftarrow> st n;
       st \<leftarrow> upd_event cur (\<lambda>ce. ce\<lparr>nextInBin := nextInBin ne\<rparr>) st;
       Some (Some top_ev, st) } }"

definition remove_event :: "evptr \<Rightarrow> event_queue \<Rightarrow> event_queue option" where
  "remove_event event s = do {
     h \<leftarrow> head s;
     e \<leftarrow> events s event;
     check (queue e = Some (self s));
     he \<leftarrow> events s h;
     if ev_eq (ekey he) (ekey e) then do {
       (h', st) \<leftarrow> removeItem event h (events s);
       Some (s\<lparr>events := st, head := h'\<rparr>) }
     else do {
       (prev, cur) \<leftarrow> findBin (events s) (ekey e) h (nextBin he);
       c \<leftarrow> cur;
       ce \<leftarrow> events s c;
       check (\<not> ev_neq (ekey ce) (ekey e));
       (t, st) \<leftarrow> removeItem event c (events s);
       st \<leftarrow> upd_event prev (\<lambda>pe. pe\<lparr>nextBin := t\<rparr>) st;
       Some (s\<lparr>events := st\<rparr>) } }"

definition asyncInsert :: "evptr \<Rightarrow> event_queue \<Rightarrow> event_queue" where
  "asyncInsert event s = s\<lparr>async_queue := async_queue s @ [event]\<rparr>"

fun insertAll :: "evptr list \<Rightarrow> event_queue \<Rightarrow> event_queue option" where
  "insertAll [] s = Some s"
| "insertAll (p # ps) s = do {
     s \<leftarrow> insert_event p s;
     insertAll ps (s\<lparr>async_queue := ps\<rparr>) }"

definition handleAsyncInsertions :: "event_queue \<Rightarrow> event_queue option" where
  "handleAsyncInsertions s = do {
     check (curEventQueue s = Some (self s));
     insertAll (async_queue s) s }"

definition checkpointReschedule :: "evptr \<Rightarrow> event_queue \<Rightarrow> event_queue option" where
  "checkpointReschedule event s = do {
     e \<leftarrow> events s event;
     if isSet (eflags e) Scheduled then insert_event event s else Some s }"

definition schedule :: "evptr \<Rightarrow> Tick \<Rightarrow> bool \<Rightarrow> event_queue \<Rightarrow> event_queue option" where
  "schedule event w global s = do {
     check (now s \<le> w);
     e \<leftarrow> events s event;
     check (\<not> scheduled e);
     check (initialized e);
     st \<leftarrow> upd_event event (setWhen w (self s)) (events s);
     let s = s\<lparr>events := st\<rparr>;
     s \<leftarrow> (if inParallelMode s \<and> (curEventQueue s \<noteq> Some (self s) \<or> global)
           then Some (asyncInsert event s) else insert_event event s);
     s \<leftarrow> upd_flags event (set_flags Scheduled) s;
     acquire event s }"

definition deschedule :: "evptr \<Rightarrow> event_queue \<Rightarrow> event_queue option" where
  "deschedule event s = do {
     e \<leftarrow> events s event;
     check (scheduled e);
     check (initialized e);
     check (\<not> inParallelMode s \<or> curEventQueue s = Some (self s));
     s \<leftarrow> remove_event event s;
     s \<leftarrow> upd_flags event (clear Squashed) s;
     s \<leftarrow> upd_flags event (clear Scheduled) s;
     release event s }"

definition reschedule :: "evptr \<Rightarrow> Tick \<Rightarrow> bool \<Rightarrow> event_queue \<Rightarrow> event_queue option" where
  "reschedule event w always s = do {
     check (now s \<le> w);
     e \<leftarrow> events s event;
     check (always \<or> scheduled e);
     check (initialized e);
     check (\<not> inParallelMode s \<or> curEventQueue s = Some (self s));
     s \<leftarrow> (if scheduled e then remove_event event s else acquire event s);
     st \<leftarrow> upd_event event (setWhen w (self s)) (events s);
     s \<leftarrow> insert_event event (s\<lparr>events := st\<rparr>);
     s \<leftarrow> upd_flags event (clear Squashed) s;
     upd_flags event (set_flags Scheduled) s }"

text \<open>\<open>serviceOne\<close> up to the call of \<open>process\<close>: the head leaves its bin.\<close>

definition popHead :: "event_queue \<Rightarrow> (evptr \<times> event_queue) option" where
  "popHead s = do {
     h \<leftarrow> head s;
     he \<leftarrow> events s h;
     s \<leftarrow> upd_flags h (clear Scheduled) s;
     case nextInBin he of
       Some n \<Rightarrow> do {
         st \<leftarrow> upd_event n (\<lambda>ne. ne\<lparr>nextBin := nextBin he\<rparr>) (events s);
         Some (h, s\<lparr>events := st, head := Some n\<rparr>) }
     | None \<Rightarrow> Some (h, s\<lparr>head := nextBin he\<rparr>) }"

definition serviceOne ::
    "(evptr \<Rightarrow> event_queue \<Rightarrow> event_queue option) \<Rightarrow> event_queue \<Rightarrow>
      (evptr option \<times> event_queue) option" where
  "serviceOne process s = do {
     (h, s) \<leftarrow> popHead s;
     e \<leftarrow> events s h;
     if \<not> squashed e then do {
       s \<leftarrow> process h (setCurTick (ev_when e) s);
       e \<leftarrow> events s h;
       if isExitEvent e then do {
         check (\<not> isManaged e \<or> \<not> isSet (eflags e) IsMainQueue);
         Some (Some h, s) }
       else do { s \<leftarrow> release h s; Some (None, s) } }
     else do {
       s \<leftarrow> upd_flags h (clear Squashed) s;
       s \<leftarrow> release h s;
       Some (None, s) } }"

partial_function (option) serviceEvents ::
    "(evptr \<Rightarrow> event_queue \<Rightarrow> event_queue option) \<Rightarrow> Tick \<Rightarrow> event_queue \<Rightarrow>
      event_queue option" where
  "serviceEvents process w s =
     (if empty_queue s then Some (setCurTick w s)
      else do {
        t \<leftarrow> nextTick s;
        if w < t then Some (setCurTick w s)
        else do { (r, s) \<leftarrow> serviceOne process s; serviceEvents process w s } })"

text \<open>\<open>dump\<close> prints the events in the order of the queue: the list of the events it
  visits, bin by bin.\<close>

partial_function (option) dumpBin :: "store \<Rightarrow> evptr option \<Rightarrow> evptr list option" where
  "dumpBin st p = (case p of
       None \<Rightarrow> Some []
     | Some x \<Rightarrow> do { e \<leftarrow> st x; xs \<leftarrow> dumpBin st (nextInBin e); Some (x # xs) })"

partial_function (option) dumpBins :: "store \<Rightarrow> evptr option \<Rightarrow> evptr list option" where
  "dumpBins st p = (case p of
       None \<Rightarrow> Some []
     | Some x \<Rightarrow> do {
         e \<leftarrow> st x;
         xs \<leftarrow> dumpBin st p;
         ys \<leftarrow> dumpBins st (nextBin e);
         Some (xs @ ys) })"

definition dump :: "event_queue \<Rightarrow> evptr list option" where
  "dump s = dumpBins (events s) (head s)"

text \<open>\<open>debugVerify\<close>: the state of the two loops is the last tick and priority and the
  events seen; \<open>Inl ()\<close> is the early return of \<open>false\<close>.\<close>

type_synonym verify_state = "Tick \<times> int \<times> evptr list"

definition verifyOne :: "verify_state \<Rightarrow> evptr \<Rightarrow> event \<Rightarrow> unit + verify_state" where
  "verifyOne v x e = (case v of (time, pri, seen) \<Rightarrow>
     if ev_when e < time then Inl ()
     else if ev_when e = time \<and> priority e < pri then Inl ()
     else if x \<in> set seen then Inl ()
     else Inr (ev_when e, priority e, x # seen))"

partial_function (option) verifyBin ::
    "store \<Rightarrow> evptr option \<Rightarrow> verify_state \<Rightarrow> (unit + verify_state) option" where
  "verifyBin st p v = (case p of
       None \<Rightarrow> Some (Inr v)
     | Some x \<Rightarrow> do {
         e \<leftarrow> st x;
         case verifyOne v x e of
           Inl u \<Rightarrow> Some (Inl u)
         | Inr v \<Rightarrow> verifyBin st (nextInBin e) v })"

partial_function (option) verifyBins ::
    "store \<Rightarrow> evptr option \<Rightarrow> verify_state \<Rightarrow> bool option" where
  "verifyBins st p v = (case p of
       None \<Rightarrow> Some True
     | Some x \<Rightarrow> do {
         r \<leftarrow> verifyBin st p v;
         case r of
           Inl u \<Rightarrow> Some False
         | Inr v \<Rightarrow> do { e \<leftarrow> st x; verifyBins st (nextBin e) v } })"

definition debugVerify :: "event_queue \<Rightarrow> bool option" where
  "debugVerify s = verifyBins (events s) (head s) (0, 0, [])"

end
