(* ===== verification/EventBins.thy ===== *)
theory EventBins
  imports EventQueue
begin

text \<open>
  The linked bins of the event queue as lists: the loops of \<open>EventQueue\<close> return on
  a store whose links run through a list of bins, and \<open>insert\<close> and \<open>remove\<close> act on
  that list as inserting into and deleting from a sorted list of events.
\<close>

section \<open>Linked bins\<close>

declare less_eq_prod_simp [simp del] less_prod_simp [simp del]

text \<open>
  A bin is its key, its top event and the events below the top. \<open>segment st p bs q\<close>
  says that the links from \<open>p\<close> run through the bins \<open>bs\<close> and end at \<open>q\<close>; the
  link \<open>nextBin\<close> counts for the top of a bin only, it may be stale below.
\<close>

type_synonym bin = "evkey \<times> evptr \<times> evptr list"

fun stack :: "store \<Rightarrow> evkey \<Rightarrow> evptr option \<Rightarrow> evptr list \<Rightarrow> bool" where
  "stack st k p [] \<longleftrightarrow> p = None"
| "stack st k p (x # xs) \<longleftrightarrow>
     p = Some x \<and> (\<exists>e. st x = Some e \<and> ekey e = k \<and> stack st k (nextInBin e) xs)"

fun segment :: "store \<Rightarrow> evptr option \<Rightarrow> bin list \<Rightarrow> evptr option \<Rightarrow> bool" where
  "segment st p [] q \<longleftrightarrow> p = q"
| "segment st p ((k, x, xs) # bs) q \<longleftrightarrow>
     p = Some x \<and> (\<exists>e. st x = Some e \<and> ekey e = k \<and> stack st k (nextInBin e) xs \<and>
       segment st (nextBin e) bs q)"

fun members :: "bin list \<Rightarrow> evptr list" where
  "members [] = []"
| "members ((k, x, xs) # bs) = x # xs @ members bs"

fun flat :: "bin list \<Rightarrow> evptr evq" where
  "flat [] = []"
| "flat ((k, x, xs) # bs) = map (Pair k) (x # xs) @ flat bs"

fun top_of :: "bin list \<Rightarrow> evptr option" where
  "top_of [] = None"
| "top_of ((k, x, xs) # bs) = Some x"

abbreviation bin_top :: "bin \<Rightarrow> evptr" where
  "bin_top b \<equiv> fst (snd b)"

definition links :: "event \<Rightarrow> evptr option \<times> evptr option \<times> evkey" where
  "links e = (nextBin e, nextInBin e, ekey e)"

text \<open>What the operations on the links keep of an event.\<close>

definition payload :: "event \<Rightarrow> Tick \<times> int \<times> u16 \<times> eqptr option" where
  "payload e = (ev_when e, priority e, eflags e, queue e)"

lemma payload_links [simp]:
  "payload (e\<lparr>nextBin := a\<rparr>) = payload e" "payload (e\<lparr>nextInBin := a\<rparr>) = payload e"
  "ekey (e\<lparr>nextBin := a\<rparr>) = ekey e" "ekey (e\<lparr>nextInBin := a\<rparr>) = ekey e"
  "ekey (e\<lparr>eflags := f\<rparr>) = ekey e"
  by (simp_all add: payload_def ekey_def)

lemma map_snd_flat [simp]: "map snd (flat bs) = members bs"
  by (induction bs rule: flat.induct) (auto simp: comp_def)

lemma members_append [simp]: "members (as @ bs) = members as @ members bs"
  by (induction as rule: members.induct) auto

lemma flat_append [simp]: "flat (as @ bs) = flat as @ flat bs"
  by (induction as rule: flat.induct) auto

lemma set_members_top: "b \<in> set bs \<Longrightarrow> bin_top b \<in> set (members bs)"
  by (induction bs rule: members.induct) auto

lemma segment_append:
  "segment st p (as @ bs) q \<longleftrightarrow> (\<exists>r. segment st p as r \<and> segment st r bs q)"
  by (induction as arbitrary: p rule: members.induct) auto

lemma segment_top: "segment st p bs None \<Longrightarrow> p = top_of bs"
  by (cases bs rule: members.cases) auto

text \<open>Only the links and keys of the events of a segment matter.\<close>

lemma links_eq_iff:
  "links e = links e' \<longleftrightarrow> nextBin e = nextBin e' \<and> nextInBin e = nextInBin e' \<and> ekey e = ekey e'"
  by (auto simp: links_def)

lemma same_linksD:
  "Some (links e) = map_option links r \<Longrightarrow>
    \<exists>e'. r = Some e' \<and> nextBin e' = nextBin e \<and> nextInBin e' = nextInBin e \<and> ekey e' = ekey e"
  by (cases r) (auto simp: links_def)

lemma stack_frame:
  assumes "stack st k p xs"
    and "\<And>x. x \<in> set xs \<Longrightarrow> map_option links (st x) = map_option links (st' x)"
  shows "stack st' k p xs"
  using assms
proof (induction xs arbitrary: p)
  case (Cons x xs)
  then obtain e where "st x = Some e" "ekey e = k" "stack st k (nextInBin e) xs" and p: "p = Some x"
    by auto
  moreover from this Cons.prems(2) [of x] obtain e' where "st' x = Some e'"
    "nextInBin e' = nextInBin e" "ekey e' = ekey e" by (auto dest: same_linksD)
  ultimately show ?case using Cons by auto
qed simp

lemma segment_frame:
  assumes "segment st p bs q"
    and "\<And>x. x \<in> set (members bs) \<Longrightarrow> map_option links (st x) = map_option links (st' x)"
  shows "segment st' p bs q"
  using assms
proof (induction bs arbitrary: p rule: members.induct)
  case (2 k x xs bs)
  then obtain e where e: "st x = Some e" "ekey e = k" "stack st k (nextInBin e) xs"
    "segment st (nextBin e) bs q" and p: "p = Some x" by auto
  moreover from e(1) "2.prems"(2) [of x] obtain e' where "st' x = Some e'"
    "nextInBin e' = nextInBin e" "ekey e' = ekey e" "nextBin e' = nextBin e"
    by (auto dest: same_linksD)
  ultimately show ?case
    using 2 by (auto intro: stack_frame)
qed simp

lemma stack_keys: "stack st k p xs \<Longrightarrow> x \<in> set xs \<Longrightarrow> \<exists>e. st x = Some e \<and> ekey e = k"
  by (induction xs arbitrary: p) auto

lemma segment_keys:
  "segment st p bs q \<Longrightarrow> (k, x) \<in> set (flat bs) \<Longrightarrow> \<exists>e. st x = Some e \<and> ekey e = k"
  by (induction bs arbitrary: p rule: members.induct) (auto dest: stack_keys)

text \<open>Changing the link of the last bin.\<close>

lemma segment_relink:
  assumes "segment st p (bs @ [b]) q" and "distinct (members (bs @ [b]))"
    and "st (bin_top b) = Some e"
  shows "segment (st(bin_top b \<mapsto> e\<lparr>nextBin := r\<rparr>)) p (bs @ [b]) r"
proof -
  obtain k x xs where b: "b = (k, x, xs)" by (cases b)
  let ?st = "st(bin_top b \<mapsto> e\<lparr>nextBin := r\<rparr>)"
  from assms(1) obtain m where m: "segment st p bs m" "segment st m [b] q"
    by (auto simp: segment_append)
  have "segment ?st p bs m"
    by (rule segment_frame [OF m(1)]) (use assms(2) b in auto)
  moreover from m(2) b assms(3) have e: "stack st k (nextInBin e) xs" "ekey e = k" "m = Some x"
    by auto
  moreover have "stack ?st k (nextInBin e) xs"
    by (rule stack_frame [OF e(1)]) (use assms(2) b in auto)
  ultimately show ?thesis
    using b by (auto simp: segment_append)
qed

section \<open>Inserting\<close>

abbreviation earlier :: "evkey \<Rightarrow> bin list \<Rightarrow> bin list" where
  "earlier k bs \<equiv> takeWhile (\<lambda>b. fst b < k) bs"

abbreviation later :: "evkey \<Rightarrow> bin list \<Rightarrow> bin list" where
  "later k bs \<equiv> dropWhile (\<lambda>b. fst b < k) bs"

fun bin_push :: "evkey \<Rightarrow> evptr \<Rightarrow> bin list \<Rightarrow> bin list" where
  "bin_push k p [] = [(k, p, [])]"
| "bin_push k p ((k', x, xs) # bs) =
     (if k < k' then (k, p, []) # (k', x, xs) # bs else (k, p, x # xs) # bs)"

definition bin_insert :: "evkey \<Rightarrow> evptr \<Rightarrow> bin list \<Rightarrow> bin list" where
  "bin_insert k p bs = earlier k bs @ bin_push k p (later k bs)"

lemma flat_earlier:
  assumes "\<forall>b \<in> set bs. fst b < k"
  shows "q_insert k p (flat bs @ q) = flat bs @ q_insert k p q"
  using assms
proof (induction bs rule: flat.induct)
  case (2 k' x xs bs)
  have "q_insert k p (map (Pair k') ys @ q') = map (Pair k') ys @ q_insert k p q'" for ys q'
    using "2.prems" by (induction ys) auto
  from this [of "x # xs"] 2 show ?case by simp
qed simp

lemma flat_push: "bs = [] \<or> k \<le> fst (hd bs) \<Longrightarrow> flat (bin_push k p bs) = q_insert k p (flat bs)"
  by (cases bs rule: members.cases) (auto simp: not_less less_le)

lemma members_push [simp]: "set (members (bin_push k p bs)) = insert p (set (members bs))"
  by (cases bs rule: members.cases) auto

lemma later_ge: "later k bs = [] \<or> k \<le> fst (hd (later k bs))"
  by (induction bs) (auto simp: not_less)

lemma flat_bin_insert: "flat (bin_insert k p bs) = q_insert k p (flat bs)"
proof -
  have "q_insert k p (flat bs) = q_insert k p (flat (earlier k bs) @ flat (later k bs))"
    by (simp flip: flat_append)
  also have "\<dots> = flat (earlier k bs) @ q_insert k p (flat (later k bs))"
    by (rule flat_earlier) (auto dest: set_takeWhileD)
  finally show ?thesis using flat_push [OF later_ge] by (simp add: bin_insert_def)
qed

lemma findBin_segment:
  assumes "segment st cur bs None"
  shows "findBin st k prev cur = Some (last (prev # map bin_top (earlier k bs)), top_of (later k bs))"
  using assms
proof (induction bs arbitrary: prev cur rule: members.induct)
  case (2 k' x xs bs)
  then show ?case
    by (subst findBin.simps) auto
qed (subst findBin.simps, simp)

lemma insertBefore_segment:
  assumes "segment st (top_of bs) bs None" and "p \<notin> set (members bs)" and "st p = Some e"
    and "bs = [] \<or> ekey e \<le> fst (hd bs)"
  shows "\<exists>e'. insertBefore p (top_of bs) st = Some (st(p \<mapsto> e')) \<and>
    segment (st(p \<mapsto> e')) (Some p) (bin_push (ekey e) p bs) None \<and>
    payload e' = payload e"
proof (cases bs rule: members.cases)
  case 1
  then show ?thesis using assms by (auto simp: insertBefore_def)
next
  case (2 k x xs bs')
  from assms(1) 2 obtain xe where xe: "st x = Some xe" "ekey xe = k"
    "stack st k (nextInBin xe) xs" "segment st (nextBin xe) bs' None" by auto
  have fr: "segment (st(p \<mapsto> e')) q bs'' r"
    if "segment st q bs'' r" "set (members bs'') \<subseteq> set (members bs)" for e' q bs'' r
    by (rule segment_frame [OF that(1)]) (use assms(2) that(2) in auto)
  have sf: "stack (st(p \<mapsto> e')) k (nextInBin xe) xs" for e'
    by (rule stack_frame [OF xe(3)]) (use assms(2) 2 in auto)
  show ?thesis
  proof (cases "ekey e < k")
    case True
    let ?e = "e\<lparr>nextBin := Some x, nextInBin := None\<rparr>"
    have "segment (st(p \<mapsto> ?e)) (Some p) (bin_push (ekey e) p bs) None"
      using 2 True fr [of "Some x" bs None] assms by simp
    moreover have "insertBefore p (top_of bs) st = Some (st(p \<mapsto> ?e))"
      using 2 xe assms True by (simp add: insertBefore_def)
    ultimately show ?thesis by (intro exI [of _ ?e]) simp
  next
    case False
    let ?e = "e\<lparr>nextBin := nextBin xe, nextInBin := Some x\<rparr>"
    from False assms(4) 2 have k: "ekey e = k" by simp
    then have k': "ekey ?e = k" by simp
    have "segment (st(p \<mapsto> ?e)) (Some p) (bin_push (ekey e) p bs) None"
      using 2 False fr [of "nextBin xe" bs' None] sf xe k k' assms(2) by auto
    moreover have "insertBefore p (top_of bs) st = Some (st(p \<mapsto> ?e))"
      using 2 xe assms False by (simp add: insertBefore_def)
    ultimately show ?thesis by (intro exI [of _ ?e]) simp
  qed
qed

definition keeps :: "store \<Rightarrow> store \<Rightarrow> bool" where
  "keeps st st' \<longleftrightarrow> (\<forall>x. map_option payload (st' x) = map_option payload (st x))"

lemma keeps_refl [simp]: "keeps st st"
  by (simp add: keeps_def)

lemma keeps_trans: "keeps st st' \<Longrightarrow> keeps st' st'' \<Longrightarrow> keeps st st''"
  by (simp add: keeps_def)

lemma keeps_upd: "st x = Some e \<Longrightarrow> payload e' = payload e \<Longrightarrow> keeps st (st(x \<mapsto> e'))"
  by (simp add: keeps_def)

lemma keepsD:
  assumes "keeps st st'" and "st x = Some e"
  obtains e' where "st' x = Some e'" "payload e' = payload e"
  using assms by (cases "st' x") (auto simp: keeps_def dest: spec [of _ x])

lemma queue_record_same [simp]: "s\<lparr>events := st, head := head s\<rparr> = s\<lparr>events := st\<rparr>"
  by (cases s) simp

lemma segment_event: "segment st p bs q \<Longrightarrow> b \<in> set bs \<Longrightarrow> \<exists>e. st (bin_top b) = Some e"
  by (induction bs arbitrary: p rule: members.induct) auto

text \<open>Linking the last of a list of bins to a new tail.\<close>

lemma upd_last:
  assumes "segment st p bs q" and "bs \<noteq> []" and "distinct (members bs)"
    and "segment st r cs None" and "set (members bs) \<inter> set (members cs) = {}"
  shows "\<exists>st'. upd_event (last (map bin_top bs)) (\<lambda>pe. pe\<lparr>nextBin := r\<rparr>) st = Some st' \<and>
    segment st' p (bs @ cs) None \<and> keeps st st'"
proof -
  obtain as b where bs: "bs = as @ [b]" using assms(2) by (cases bs rule: rev_cases) auto
  obtain e where e: "st (bin_top b) = Some e" using segment_event [OF assms(1), of b] bs by auto
  let ?st = "st(bin_top b \<mapsto> e\<lparr>nextBin := r\<rparr>)"
  have "segment ?st p bs r" using segment_relink [of st p as b q e r] assms bs e by simp
  moreover have top: "bin_top b \<in> set (members bs)" by (rule set_members_top) (simp add: bs)
  have "segment ?st r cs None"
    by (rule segment_frame [OF assms(4)]) (use assms(5) top in auto)
  ultimately have "segment ?st p (bs @ cs) None" by (auto simp: segment_append)
  moreover have "keeps st ?st" using e by (rule keeps_upd) simp
  ultimately show ?thesis using e bs by (simp add: upd_event_def)
qed

text \<open>The bins before and after a key.\<close>

lemma later_split:
  assumes "segment st p bs None" and "distinct (members bs)"
  obtains r where "segment st p (earlier k bs) r" "segment st r (later k bs) None"
    "r = top_of (later k bs)" "distinct (members (earlier k bs))" "distinct (members (later k bs))"
    "set (members (earlier k bs)) \<inter> set (members (later k bs)) = {}"
    "set (members bs) = set (members (earlier k bs)) \<union> set (members (later k bs))"
    "flat bs = flat (earlier k bs) @ flat (later k bs)"
proof -
  have mem: "members bs = members (earlier k bs) @ members (later k bs)"
    using members_append [of "earlier k bs" "later k bs"] by simp
  have fl: "flat bs = flat (earlier k bs) @ flat (later k bs)"
    using flat_append [of "earlier k bs" "later k bs"] by simp
  obtain r where r: "segment st p (earlier k bs) r" "segment st r (later k bs) None"
    using assms(1) segment_append [of st p "earlier k bs" "later k bs" None] by auto
  show ?thesis
    by (rule that [OF r segment_top [OF r(2)] _ _ _ _ fl]) (use assms(2) mem in auto)
qed

lemma insert_event_bins:
  assumes seg: "segment (events s) (head s) bs None" and dist: "distinct (members bs)"
    and p: "p \<notin> set (members bs)" "events s p = Some e"
  shows "\<exists>st h. insert_event p s = Some (s\<lparr>events := st, head := h\<rparr>) \<and>
    segment st h (bin_insert (ekey e) p bs) None \<and> keeps (events s) st"
proof -
  let ?k = "ekey e"
  obtain r where r: "segment (events s) (head s) (earlier ?k bs) r"
    "segment (events s) r (later ?k bs) None" "r = top_of (later ?k bs)"
    "distinct (members (earlier ?k bs))"
    "set (members (earlier ?k bs)) \<inter> set (members (later ?k bs)) = {}"
    "set (members bs) = set (members (earlier ?k bs)) \<union> set (members (later ?k bs))"
    using later_split [OF seg dist, of ?k] by metis
  obtain e' where e': "insertBefore p (top_of (later ?k bs)) (events s) = Some ((events s)(p \<mapsto> e'))"
    "segment ((events s)(p \<mapsto> e')) (Some p) (bin_push ?k p (later ?k bs)) None"
    "payload e' = payload e"
    using insertBefore_segment [of "events s" "later ?k bs" p e] r p later_ge by auto
  let ?st = "(events s)(p \<mapsto> e')"
  have kp: "keeps (events s) ?st" using p(2) e'(3) by (rule keeps_upd)
  show ?thesis
  proof (cases "earlier ?k bs = []")
    case True
    then have later: "later ?k bs = bs" by (metis append_Nil takeWhile_dropWhile_id)
    then have "insert_event p s = Some (s\<lparr>events := ?st, head := Some p\<rparr>)"
      using seg e' p later_ge [of ?k bs]
      by (cases bs rule: members.cases) (auto simp: insert_event_def)
    then show ?thesis using e'(2) True kp later by (auto simp: bin_insert_def)
  next
    case False
    then obtain k x xs bs' where bs: "bs = (k, x, xs) # bs'" and k: "k < ?k"
      by (cases bs rule: members.cases) (auto split: if_splits)
    have "segment ?st (head s) (earlier ?k bs) r"
      by (rule segment_frame [OF r(1)]) (use p r in auto)
    moreover have "set (members (earlier ?k bs)) \<inter> set (members (bin_push ?k p (later ?k bs))) = {}"
      using p r by auto
    ultimately obtain st' where st': "upd_event (last (map bin_top (earlier ?k bs))) (\<lambda>pe. pe\<lparr>nextBin := Some p\<rparr>) ?st = Some st'"
      "segment st' (head s) (bin_insert ?k p bs) None" "keeps ?st st'"
      using upd_last [of ?st "head s" "earlier ?k bs" r "Some p"] False r(4) e'(2)
      unfolding bin_insert_def by blast
    from seg bs obtain xe where xe: "head s = Some x" "events s x = Some xe" "ekey xe = k"
      "segment (events s) (nextBin xe) bs' None" by auto
    have "insert_event p s = Some (s\<lparr>events := st'\<rparr>)"
      using xe k not_le [of ?k k] p e' st'(1) bs findBin_segment [OF xe(4), of ?k x]
      by (simp add: insert_event_def)
    then show ?thesis using st'(2,3) kp by (intro exI [of _ st'] exI [of _ "head s"]) (auto intro: keeps_trans)
  qed
qed


section \<open>Removing\<close>

fun bin_pop :: "evptr \<Rightarrow> bin list \<Rightarrow> bin list" where
  "bin_pop p [] = []"
| "bin_pop p ((k, x, xs) # bs) =
     (if p = x then (case xs of [] \<Rightarrow> bs | y # ys \<Rightarrow> (k, y, ys) # bs)
      else (k, x, remove1 p xs) # bs)"

definition bin_remove :: "evkey \<Rightarrow> evptr \<Rightarrow> bin list \<Rightarrow> bin list" where
  "bin_remove k p bs = earlier k bs @ bin_pop p (later k bs)"

lemma findInBin_stack:
  assumes "stack st k nxt xs"
  shows "findInBin st p cur nxt =
    (if p \<in> set xs then Some (last (cur # takeWhile (\<lambda>x. x \<noteq> p) xs), p) else None)"
  using assms
proof (induction xs arbitrary: cur nxt)
  case (Cons x xs)
  then show ?case by (subst findInBin.simps) auto
qed (subst findInBin.simps, simp)

lemma stack_unlink:
  assumes "st cur = Some ce" and "stack st k (nextInBin ce) xs" and "cur \<notin> set xs" "distinct xs"
    and "p \<in> set xs" "st p = Some pe"
    and "st (last (cur # takeWhile (\<lambda>x. x \<noteq> p) xs)) = Some le"
    and "st' = st(last (cur # takeWhile (\<lambda>x. x \<noteq> p) xs) \<mapsto> le\<lparr>nextInBin := nextInBin pe\<rparr>)"
  shows "\<exists>ce'. st' cur = Some ce' \<and> nextBin ce' = nextBin ce \<and> ekey ce' = ekey ce \<and>
    stack st' k (nextInBin ce') (remove1 p xs)"
  using assms
proof (induction xs arbitrary: cur ce)
  case (Cons y ys)
  show ?case
  proof (cases "y = p")
    case True
    have "stack st k (nextInBin pe) ys" using Cons.prems True by auto
    then have "stack st' k (nextInBin pe) ys"
      by (rule stack_frame) (use Cons.prems True in auto)
    then show ?thesis using Cons.prems True by auto
  next
    case False
    from Cons.prems(2) obtain ye where ye: "nextInBin ce = Some y" "st y = Some ye" "ekey ye = k"
      "stack st k (nextInBin ye) ys" by auto
    from Cons.IH [OF ye(2,4)] Cons.prems False obtain ye' where "st' y = Some ye'"
      "nextBin ye' = nextBin ye" "ekey ye' = ekey ye" "stack st' k (nextInBin ye') (remove1 p ys)"
      by auto
    moreover have "last (y # takeWhile (\<lambda>x. x \<noteq> p) ys) \<in> set (y # ys)"
      by (metis last_in_set list.discI list.set_intros(1) set_ConsD set_subset_Cons set_takeWhileD
          list.set_intros(2))
    then have "st' cur = Some ce" using Cons.prems False by auto
    ultimately show ?thesis using ye False by auto
  qed
qed simp

lemma removeItem_segment:
  assumes seg: "segment st (Some x) ((k, x, xs) # bs) q" and dist: "distinct (members ((k, x, xs) # bs))"
    and p: "p \<in> set (x # xs)"
  shows "\<exists>t st'. removeItem p x st = Some (t, st') \<and>
    segment st' t (bin_pop p ((k, x, xs) # bs)) q \<and> keeps st st' \<and>
    (\<forall>y. y \<notin> set (x # xs) \<longrightarrow> st' y = st y)"
proof (cases "p = x")
  case True
  from seg obtain xe where xe: "st x = Some xe" "ekey xe = k" "stack st k (nextInBin xe) xs"
    "segment st (nextBin xe) bs q" by auto
  show ?thesis
  proof (cases xs)
    case Nil
    then show ?thesis using True xe by (auto simp: removeItem_def)
  next
    case (Cons y ys)
    with xe obtain ye where ye: "nextInBin xe = Some y" "st y = Some ye" "ekey ye = k"
      "stack st k (nextInBin ye) ys" by auto
    let ?st = "st(y \<mapsto> ye\<lparr>nextBin := nextBin xe\<rparr>)"
    have "stack ?st k (nextInBin ye) ys"
      by (rule stack_frame [OF ye(4)]) (use dist Cons in auto)
    moreover have "segment ?st (nextBin xe) bs q"
      by (rule segment_frame [OF xe(4)]) (use dist Cons in auto)
    moreover have "keeps st ?st" using ye(2) by (rule keeps_upd) simp
    ultimately show ?thesis
      using True xe ye Cons by (auto simp: removeItem_def upd_event_def)
  qed
next
  case False
  with p have px: "p \<in> set xs" by simp
  from seg obtain xe where xe: "st x = Some xe" "ekey xe = k" "stack st k (nextInBin xe) xs"
    "segment st (nextBin xe) bs q" by auto
  let ?l = "last (x # takeWhile (\<lambda>y. y \<noteq> p) xs)"
  have l: "?l \<in> set (x # xs)"
    by (metis last_in_set list.discI list.set_intros(1) set_ConsD set_takeWhileD list.set_intros(2))
  obtain le where le: "st ?l = Some le" using l xe(1) stack_keys [OF xe(3)] by fastforce
  obtain pe where pe: "st p = Some pe" using px stack_keys [OF xe(3)] by blast
  let ?st = "st(?l \<mapsto> le\<lparr>nextInBin := nextInBin pe\<rparr>)"
  obtain xe' where xe': "?st x = Some xe'" "nextBin xe' = nextBin xe" "ekey xe' = ekey xe"
    "stack ?st k (nextInBin xe') (remove1 p xs)"
    using stack_unlink [OF xe(1,3) _ _ px pe le refl] dist by auto
  have "segment ?st (nextBin xe) bs q"
    by (rule segment_frame [OF xe(4)]) (use dist l in auto)
  then have "segment ?st (Some x) (bin_pop p ((k, x, xs) # bs)) q"
    using False xe xe' by auto
  moreover have "removeItem p x st = Some (Some x, ?st)"
    using False xe px pe le findInBin_stack [OF xe(3), of p x] by (simp add: removeItem_def upd_event_def)
  moreover have "keeps st ?st" using le by (rule keeps_upd) simp
  moreover have "\<forall>y. y \<notin> set (x # xs) \<longrightarrow> ?st y = st y" using l by auto
  ultimately show ?thesis by blast
qed

lemma later_bin:
  assumes "sorted_wrt (<) (map fst bs)" and "(k, p) \<in> set (flat bs)"
  shows "\<exists>x xs cs. later k bs = (k, x, xs) # cs \<and> p \<in> set (x # xs)"
  using assms
proof (induction bs rule: members.induct)
  case (2 k' x xs bs)
  show ?case
  proof (cases "k' < k")
    case False
    have "\<exists>b \<in> set bs. fst b = k" if "(k, p) \<in> set (flat bs)"
      using that by (induction bs rule: members.induct) auto
    then have "(k, p) \<notin> set (flat bs)" using False "2.prems"(1) by auto
    then show ?thesis using False 2 by auto
  qed (use 2 in auto)
qed simp

lemma flat_bin_pop:
  assumes "distinct (members ((k, x, xs) # cs))" and "p \<in> set (x # xs)"
  shows "flat (bin_pop p ((k, x, xs) # cs)) = q_remove p (flat ((k, x, xs) # cs))"
proof -
  have bin: "q_remove p (map (Pair k) ys) = map (Pair k) (remove1 p ys)" if "distinct ys" for ys
    using that by (induction ys) (auto simp: q_remove_def remove1_idem)
  have rest: "q_remove p (flat cs) = flat cs"
    unfolding q_remove_def by (rule filter_True)
      (use assms in \<open>auto simp flip: map_snd_flat simp: image_iff\<close>)
  have "flat (bin_pop p ((k, x, xs) # cs)) = map (Pair k) (remove1 p (x # xs)) @ flat cs"
    by (auto split: list.split)
  also have "\<dots> = q_remove p (map (Pair k) (x # xs)) @ q_remove p (flat cs)"
    using bin [of "x # xs"] rest assms(1) by simp
  finally show ?thesis by (simp add: q_remove_def)
qed

lemma flat_bin_remove:
  assumes "sorted_wrt (<) (map fst bs)" and "distinct (members bs)" and "(k, p) \<in> set (flat bs)"
    and "segment st h bs None"
  shows "flat (bin_remove k p bs) = q_remove p (flat bs)"
proof -
  obtain x xs cs where l: "later k bs = (k, x, xs) # cs" "p \<in> set (x # xs)"
    using later_bin [OF assms(1,3)] by auto
  obtain r where r: "distinct (members (later k bs))"
    "set (members (earlier k bs)) \<inter> set (members (later k bs)) = {}"
    "flat bs = flat (earlier k bs) @ flat (later k bs)"
    using later_split [OF assms(4,2), of k] by metis
  have "p \<notin> set (members (earlier k bs))" using r(2) l by auto
  then have "q_remove p (flat (earlier k bs)) = flat (earlier k bs)"
    unfolding q_remove_def by (intro filter_True) (auto simp flip: map_snd_flat simp: image_iff)
  then show ?thesis
    using flat_bin_pop [of k x xs cs p] r l unfolding bin_remove_def r(3) l(1)
    by (simp add: q_remove_def)
qed

lemma set_bin_pop: "set (members (bin_pop p bs)) \<subseteq> set (members bs)"
  by (cases bs rule: members.cases) (auto split: list.split dest: notin_set_remove1 set_mp [OF set_remove1_subset])

lemma remove_event_bins:
  assumes seg: "segment (events s) (head s) bs None" and dist: "distinct (members bs)"
    and sort: "sorted_wrt (<) (map fst bs)"
    and p: "(ekey e, p) \<in> set (flat bs)" "events s p = Some e" "queue e = Some (self s)"
  shows "\<exists>st h. remove_event p s = Some (s\<lparr>events := st, head := h\<rparr>) \<and>
    segment st h (bin_remove (ekey e) p bs) None \<and> keeps (events s) st"
proof -
  let ?k = "ekey e"
  obtain x xs cs where l: "later ?k bs = (?k, x, xs) # cs" and px: "p \<in> set (x # xs)"
    using later_bin [OF sort p(1)] by auto
  obtain r where r: "segment (events s) (head s) (earlier ?k bs) r"
    "segment (events s) r (later ?k bs) None" "r = top_of (later ?k bs)"
    "distinct (members (earlier ?k bs))" "distinct (members (later ?k bs))"
    "set (members (earlier ?k bs)) \<inter> set (members (later ?k bs)) = {}"
    "set (members bs) = set (members (earlier ?k bs)) \<union> set (members (later ?k bs))"
    using later_split [OF seg dist, of ?k] by metis
  obtain t st where t: "removeItem p x (events s) = Some (t, st)"
    "segment st t (bin_pop p (later ?k bs)) None" "keeps (events s) st"
    "\<forall>y. y \<notin> set (x # xs) \<longrightarrow> st y = events s y"
    using removeItem_segment [of "events s" x ?k xs cs None p] r l px by auto
  obtain xe where xe: "events s x = Some xe" "ekey xe = ?k" using r(2) l by auto
  show ?thesis
  proof (cases "earlier ?k bs = []")
    case True
    then have "bs = later ?k bs" by (metis append_Nil takeWhile_dropWhile_id)
    then have "head s = Some x" using seg l by (metis segment.simps(2))
    then have "remove_event p s = Some (s\<lparr>events := st, head := t\<rparr>)"
      using p t xe by (simp add: remove_event_def)
    then show ?thesis using t(2,3) True by (auto simp: bin_remove_def)
  next
    case False
    then obtain k y ys bs' where bs: "bs = (k, y, ys) # bs'" and k: "k < ?k"
      by (cases bs rule: members.cases) (auto split: if_splits)
    from seg bs obtain ye where ye: "head s = Some y" "events s y = Some ye" "ekey ye = k"
      "segment (events s) (nextBin ye) bs' None" by auto
    have "segment st (head s) (earlier ?k bs) r"
      by (rule segment_frame [OF r(1)]) (use t(4) r(6) l in auto)
    moreover have "set (members (earlier ?k bs)) \<inter> set (members (bin_pop p (later ?k bs))) = {}"
      using r(6) set_bin_pop by fastforce
    ultimately obtain st' where st':
      "upd_event (last (map bin_top (earlier ?k bs))) (\<lambda>pe. pe\<lparr>nextBin := t\<rparr>) st = Some st'"
      "segment st' (head s) (bin_remove ?k p bs) None" "keeps st st'"
      using upd_last [of st "head s" "earlier ?k bs" r t] False r(4) t(2)
      unfolding bin_remove_def by blast
    have "later ?k bs' = (?k, x, xs) # cs" using l bs k by simp
    then have "remove_event p s = Some (s\<lparr>events := st'\<rparr>)"
      using ye xe k less_imp_neq [OF k] p t(1) st'(1) bs findBin_segment [OF ye(4), of ?k y]
      by (simp add: remove_event_def)
    then show ?thesis using st'(2,3) t(3)
      by (intro exI [of _ st'] exI [of _ "head s"]) (auto intro: keeps_trans)
  qed
qed

lemma removeItem_missing:
  assumes "segment st (Some x) ((k, x, xs) # cs) q" and "p \<notin> set (x # xs)"
  shows "removeItem p x st = None"
  using assms by (auto simp: removeItem_def findInBin_stack)

lemma remove_event_missing:
  assumes seg: "segment (events s) (head s) bs None" and dist: "distinct (members bs)"
    and p: "p \<notin> set (members bs)"
  shows "remove_event p s = None"
proof (cases bs rule: members.cases)
  case (2 k y ys bs')
  then obtain ye where ye: "head s = Some y" "events s y = Some ye" "ekey ye = k"
    "segment (events s) (nextBin ye) bs' None" using seg by auto
  show ?thesis
  proof (cases "events s p")
    case (Some e)
    let ?k = "ekey e"
    obtain r where r: "segment (events s) r (later ?k bs') None" "r = top_of (later ?k bs')"
      "set (members bs') = set (members (earlier ?k bs')) \<union> set (members (later ?k bs'))"
      using later_split [OF ye(4), of ?k] dist 2 by auto
    have "removeItem p c (events s) = None" if "top_of (later ?k bs') = Some c" for c
      using that r p 2 removeItem_missing [of "events s" c _ _ _ None p]
      by (cases "later ?k bs'" rule: members.cases) auto
    moreover have "removeItem p y (events s) = None"
      using removeItem_missing [of "events s" y k ys bs' None p] seg 2 p ye by auto
    ultimately show ?thesis
      using ye Some findBin_segment [OF ye(4), of ?k y]
      by (cases "top_of (later ?k bs')") (auto simp: remove_event_def abort_simps split: option.split)
  qed (simp add: remove_event_def ye)
qed (use seg in \<open>simp add: remove_event_def\<close>)

end
