(* ===== verification/EventService.thy ===== *)
theory EventService
  imports EventBins Runs
begin

text \<open>
  Well-formed event queues: every operation of the code returns on them, keeps them
  well-formed and acts on the list of pending events as the operation of
  \<open>EventOrder\<close> does.
\<close>

section \<open>Well-formed queues\<close>

definition rep :: "event_queue \<Rightarrow> bin list \<Rightarrow> bool" where
  "rep s bs \<longleftrightarrow> segment (events s) (head s) bs None \<and> sorted_wrt (<) (map fst bs) \<and>
     distinct (members bs)"

definition on_queue :: "store \<Rightarrow> eqptr \<Rightarrow> evptr \<Rightarrow> bool" where
  "on_queue st q p = (case st p of None \<Rightarrow> False
     | Some e \<Rightarrow> scheduled e \<and> initialized e \<and> queue e = Some q)"

text \<open>The pending events with their keys, in the order in which they will be served.\<close>

definition key_of :: "store \<Rightarrow> evptr \<Rightarrow> evkey" where
  "key_of st p = (case st p of None \<Rightarrow> (0, 0) | Some e \<Rightarrow> ekey e)"

definition pending :: "event_queue \<Rightarrow> evptr evq" where
  "pending s = (case dump s of None \<Rightarrow> [] | Some ps \<Rightarrow> map (\<lambda>p. (key_of (events s) p, p)) ps)"

definition queue_ok :: "event_queue \<Rightarrow> bool" where
  "queue_ok s \<longleftrightarrow> (\<exists>bs. rep s bs) \<and> (\<forall>p \<in> snd ` set (pending s). on_queue (events s) (self s) p) \<and>
     (\<forall>x \<in> set (pending s). now s \<le> fst (fst x))"

lemma dumpBin_stack: "stack st k p xs \<Longrightarrow> dumpBin st p = Some xs"
proof (induction xs arbitrary: p)
  case Nil
  then show ?case by (subst dumpBin.simps) simp
next
  case (Cons x xs)
  then show ?case by (subst dumpBin.simps) auto
qed

lemma dumpBins_segment: "segment st p bs None \<Longrightarrow> dumpBins st p = Some (members bs)"
proof (induction bs arbitrary: p rule: members.induct)
  case 1
  then show ?case by (subst dumpBins.simps) simp
next
  case (2 k x xs bs)
  then have "stack st k p (x # xs)" by auto
  then have "dumpBin st p = Some (x # xs)" by (rule dumpBin_stack)
  with 2 show ?case by (subst dumpBins.simps) auto
qed

lemma rep_pending:
  assumes "rep s bs"
  shows "pending s = flat bs" and "dump s = Some (map snd (pending s))"
proof -
  have seg: "segment (events s) (head s) bs None" using assms by (simp add: rep_def)
  then have d: "dump s = Some (members bs)" by (simp add: dump_def dumpBins_segment)
  have "key_of (events s) p = k" if "(k, p) \<in> set (flat bs)" for k p
    using segment_keys [OF seg that] by (auto simp: key_of_def)
  then have "map (\<lambda>p. (key_of (events s) p, p)) (map snd (flat bs)) = flat bs"
    unfolding map_map by (intro map_idI) auto
  then show "pending s = flat bs" by (simp add: pending_def d)
  then show "dump s = Some (map snd (pending s))" by (simp add: d)
qed

lemma queue_okE:
  assumes "queue_ok s"
  obtains bs where "segment (events s) (head s) bs None" "sorted_wrt (<) (map fst bs)"
    "distinct (members bs)" "pending s = flat bs"
    "\<And>p. p \<in> set (members bs) \<Longrightarrow> on_queue (events s) (self s) p"
    "\<And>x. x \<in> set (flat bs) \<Longrightarrow> now s \<le> fst (fst x)"
proof -
  obtain bs where bs: "rep s bs" using assms by (auto simp: queue_ok_def)
  have "snd ` set (flat bs) = set (members bs)" by (simp flip: set_map)
  with bs assms show ?thesis
    by (intro that [of bs]) (auto simp: rep_def rep_pending(1) queue_ok_def)
qed

lemma queue_okI:
  assumes "segment (events s) (head s) bs None" "sorted_wrt (<) (map fst bs)" "distinct (members bs)"
    and "\<And>p. p \<in> set (members bs) \<Longrightarrow> on_queue (events s) (self s) p"
    and "\<And>x. x \<in> set (flat bs) \<Longrightarrow> now s \<le> fst (fst x)"
  shows "queue_ok s" and "pending s = flat bs"
proof -
  have bs: "rep s bs" using assms by (simp add: rep_def)
  then show "pending s = flat bs" by (rule rep_pending)
  moreover have "snd ` set (flat bs) = set (members bs)" by (simp flip: set_map)
  ultimately show "queue_ok s" using bs assms by (auto simp: queue_ok_def)
qed

lemma sorted_flat: "sorted_wrt (<) (map fst bs) \<Longrightarrow> q_sorted (flat bs)"
proof (induction bs rule: members.induct)
  case (2 k x xs bs)
  have "\<exists>b \<in> set bs. fst b = fst y" if "y \<in> set (flat bs)" for y
    using that by (induction bs rule: members.induct) auto
  then have "\<forall>y \<in> set (flat bs). k < fst y" using 2 by fastforce
  moreover have "sorted (map fst (map (Pair k) xs))" by (simp add: comp_def sorted_map)
  ultimately show ?case using 2 by (auto simp: q_sorted_def sorted_append less_imp_le comp_def)
qed (simp add: q_sorted_def)

lemma queue_ok_sorted:
  assumes "queue_ok s"
  shows "q_sorted (pending s)" and "distinct (map snd (pending s))"
    and "dump s = Some (map snd (pending s))"
  using assms by (auto elim!: queue_okE intro: sorted_flat rep_pending simp: rep_def)

lemma on_queue_payload:
  "map_option payload (st' p) = map_option payload (st p) \<Longrightarrow> on_queue st' q p = on_queue st q p"
  by (cases "st p"; cases "st' p")
    (auto simp: on_queue_def payload_def scheduled_def initialized_def)

lemma sorted_bin_insert:
  assumes "sorted_wrt (<) (map fst bs)"
  shows "sorted_wrt (<) (map fst (bin_insert k p bs))"
proof -
  have s: "sorted_wrt (<) (map fst (earlier k bs))" "sorted_wrt (<) (map fst (later k bs))"
    using assms sorted_wrt_append [of "(<)" "map fst (earlier k bs)" "map fst (later k bs)"]
    by (simp_all flip: map_append)
  have "sorted_wrt (<) (map fst (bin_push k p ls)) \<and> (\<forall>b \<in> set (bin_push k p ls). k \<le> fst b)"
    if "sorted_wrt (<) (map fst ls)" and "ls = [] \<or> k \<le> fst (hd ls)" for ls
    using that by (cases ls rule: members.cases) (auto intro: less_trans less_imp_le)
  from this [OF s(2) later_ge]
  have "sorted_wrt (<) (map fst (bin_push k p (later k bs))) \<and>
    (\<forall>b \<in> set (bin_push k p (later k bs)). k \<le> fst b)" .
  moreover have "\<forall>b \<in> set (earlier k bs). fst b < k" by (auto dest: set_takeWhileD)
  ultimately show ?thesis
    using s(1) by (fastforce simp: bin_insert_def sorted_wrt_append intro: less_le_trans)
qed

lemma fst_bin_pop: "set (map fst (bin_pop p bs)) \<subseteq> set (map fst bs)"
  by (cases bs rule: members.cases) (auto split: list.split)

lemma sorted_bin_pop:
  "sorted_wrt (<) (map fst bs) \<Longrightarrow> sorted_wrt (<) (map fst (bin_pop p bs))"
  by (cases bs rule: members.cases) (auto split: list.split)

lemma sorted_bin_remove:
  assumes "sorted_wrt (<) (map fst bs)"
  shows "sorted_wrt (<) (map fst (bin_remove k p bs))"
proof -
  have "sorted_wrt (<) (map fst (earlier k bs) @ map fst (later k bs))"
    using assms by (simp flip: map_append)
  then show ?thesis
    using fst_bin_pop [of p "later k bs"] sorted_bin_pop [of "later k bs" p]
    by (force simp: bin_remove_def sorted_wrt_append)
qed

lemma distinct_bin_insert:
  assumes "distinct (members bs)" and "p \<notin> set (members bs)"
  shows "distinct (members (bin_insert k p bs))"
    and "set (members (bin_insert k p bs)) = insert p (set (members bs))"
proof -
  have "distinct (map snd (q_insert k p (flat bs)))"
    by (rule distinct_q_insert) (use assms in \<open>auto simp: q_member_def simp flip: map_snd_flat\<close>)
  then show "distinct (members (bin_insert k p bs))"
    using map_snd_flat [of "bin_insert k p bs"] by (simp add: flat_bin_insert)
  have "set (map snd (flat (bin_insert k p bs))) = insert p (set (map snd (flat bs)))"
    by (simp only: flat_bin_insert set_map set_q_insert image_insert snd_conv)
  then show "set (members (bin_insert k p bs)) = insert p (set (members bs))" by simp
qed

section \<open>The operations\<close>

lemma flag_facts [simp]:
  "isSet (set_flags Scheduled f) Scheduled" "\<not> isSet (clear Scheduled f) Scheduled"
  "isSet (clear Squashed f) Scheduled = isSet f Scheduled"
  by (auto simp: flag_simps Scheduled_def Squashed_def)

lemma init_facts [simp]:
  "set_flags Scheduled f AND InitMask = f AND InitMask"
  "clear Scheduled f AND InitMask = f AND InitMask"
  "clear Squashed f AND InitMask = f AND InitMask"
  by (simp_all add: Scheduled_def Squashed_def InitMask_def set_flags_def clear_def
      bit.conj_disj_distrib bit.conj_disj_distrib2 and.assoc)

lemma segment_flags:
  "segment st h bs q \<Longrightarrow> st p = Some e \<Longrightarrow> segment (st(p \<mapsto> e\<lparr>eflags := f\<rparr>)) h bs q"
  by (erule segment_frame) (auto simp: links_def)

lemma payload_fields:
  assumes "payload e' = payload e"
  shows "ekey e' = ekey e" "eflags e' = eflags e" "queue e' = queue e" "scheduled e' = scheduled e"
    "initialized e' = initialized e" "priority e' = priority e" "ev_when e' = ev_when e"
  using assms by (auto simp: payload_def ekey_def scheduled_def initialized_def)

text \<open>The state of the links, with the events off the queue left open.\<close>

definition linked :: "event_queue \<Rightarrow> bin list \<Rightarrow> bool" where
  "linked s bs \<longleftrightarrow> segment (events s) (head s) bs None \<and> sorted_wrt (<) (map fst bs) \<and>
     distinct (members bs) \<and> (\<forall>x \<in> set (flat bs). now s \<le> fst (fst x))"

definition others_on :: "evptr \<Rightarrow> event_queue \<Rightarrow> bin list \<Rightarrow> bool" where
  "others_on p s bs \<longleftrightarrow> (\<forall>x \<in> set (members bs). x \<noteq> p \<longrightarrow> on_queue (events s) (self s) x)"

lemma queue_ok_linked:
  "queue_ok s \<longleftrightarrow> (\<exists>bs. linked s bs \<and> pending s = flat bs \<and>
     (\<forall>x \<in> set (members bs). on_queue (events s) (self s) x))"
  by (auto simp: linked_def elim!: queue_okE intro: queue_okI(1))

lemma linked_pending: "linked s bs \<Longrightarrow> pending s = flat bs"
  by (auto simp: linked_def rep_def intro: rep_pending(1))

lemma insert_linked:
  assumes "linked s bs" and "others_on p s bs" and "p \<notin> set (members bs)" and "events s p = Some e"
    and "now s \<le> w"
  shows "\<exists>s' e'. insert_event p (s\<lparr>events := (events s)(p \<mapsto> setWhen w q e)\<rparr>) = Some s' \<and>
    linked s' (bin_insert (w, priority e) p bs) \<and> others_on p s' (bin_insert (w, priority e) p bs) \<and>
    events s' p = Some e' \<and> payload e' = payload (setWhen w q e) \<and>
    now s' = now s \<and> self s' = self s \<and> inParallelMode s' = inParallelMode s"
proof -
  let ?e = "setWhen w q e"
  let ?s = "s\<lparr>events := (events s)(p \<mapsto> ?e)\<rparr>"
  have k: "ekey ?e = (w, priority e)" by (simp add: ekey_def setWhen_def)
  have l: "segment (events s) (head s) bs None" "sorted_wrt (<) (map fst bs)" "distinct (members bs)"
    "\<And>x. x \<in> set (flat bs) \<Longrightarrow> now s \<le> fst (fst x)"
    using assms(1) by (auto simp: linked_def)
  have "segment (events ?s) (head ?s) bs None"
    using assms(3) by (auto intro: segment_frame [OF l(1)])
  from insert_event_bins [OF this l(3) assms(3), of ?e] k
  obtain st h where st: "insert_event p ?s = Some (?s\<lparr>events := st, head := h\<rparr>)"
    "segment st h (bin_insert (w, priority e) p bs) None" "keeps (events ?s) st" by auto
  obtain e' where e': "st p = Some e'" "payload e' = payload ?e"
    using keepsD [OF st(3), of p ?e] by auto
  have "linked (?s\<lparr>events := st, head := h\<rparr>) (bin_insert (w, priority e) p bs)"
    using st(2) l assms(3,5) by (auto simp: linked_def sorted_bin_insert distinct_bin_insert flat_bin_insert)
  moreover have "on_queue st (self s) x = on_queue (events s) (self s) x" if "x \<noteq> p" for x
    using st(3) that by (intro on_queue_payload) (auto simp: keeps_def)
  then have "others_on p (?s\<lparr>events := st, head := h\<rparr>) (bin_insert (w, priority e) p bs)"
    using assms(2) distinct_bin_insert(2) [OF l(3) assms(3)] by (auto simp: others_on_def)
  ultimately show ?thesis using st(1) e' by auto
qed

text \<open>Setting the flags of the placed event completes the queue.\<close>

lemma flags_linked:
  assumes "linked s bs" and "others_on p s bs" and "events s p = Some e" and "queue e = Some (self s)"
    and "isSet f Scheduled" "f AND InitMask = Initialized"
  shows "queue_ok (s\<lparr>events := (events s)(p \<mapsto> e\<lparr>eflags := f\<rparr>)\<rparr>)"
    and "pending (s\<lparr>events := (events s)(p \<mapsto> e\<lparr>eflags := f\<rparr>)\<rparr>) = flat bs"
proof -
  let ?s = "s\<lparr>events := (events s)(p \<mapsto> e\<lparr>eflags := f\<rparr>)\<rparr>"
  have l: "linked ?s bs" using assms(1) segment_flags [where p = p and e = e] assms(3)
    by (auto simp: linked_def)
  then show "pending ?s = flat bs" by (rule linked_pending)
  moreover have "on_queue (events ?s) (self s) x" if "x \<in> set (members bs)" for x
    using that assms by (cases "x = p") (auto simp: on_queue_def others_on_def scheduled_def initialized_def)
  ultimately show "queue_ok ?s" using l by (auto simp: queue_ok_linked)
qed

text \<open>An event that leaves the queue, or whose object is off the queue, does not matter.\<close>

lemma linked_off:
  assumes "linked s bs" and "others_on p s bs" and "p \<notin> set (members bs)"
  shows "queue_ok (s\<lparr>events := (events s)(p := r)\<rparr>)"
    and "pending (s\<lparr>events := (events s)(p := r)\<rparr>) = flat bs"
proof -
  let ?s = "s\<lparr>events := (events s)(p := r)\<rparr>"
  have "segment (events ?s) (head ?s) bs None"
    by (rule segment_frame [of "events s"]) (use assms(1,3) in \<open>auto simp: linked_def\<close>)
  then have l: "linked ?s bs" using assms(1) by (simp add: linked_def)
  then show "pending ?s = flat bs" by (rule linked_pending)
  moreover have "on_queue (events ?s) (self s) x" if "x \<in> set (members bs)" for x
    using that assms by (cases "x = p") (auto simp: on_queue_def others_on_def)
  ultimately show "queue_ok ?s" using l by (auto simp: queue_ok_linked)
qed

lemma remove_linked:
  assumes "linked s bs" and "\<forall>x \<in> set (members bs). on_queue (events s) (self s) x"
    and "p \<in> set (members bs)" and "events s p = Some e"
  shows "\<exists>s' e' bs'. remove_event p s = Some s' \<and> linked s' bs' \<and> others_on p s' bs' \<and>
    p \<notin> set (members bs') \<and> flat bs' = q_remove p (flat bs) \<and> events s' p = Some e' \<and>
    payload e' = payload e \<and> now s' = now s \<and> self s' = self s \<and> inParallelMode s' = inParallelMode s"
proof -
  have l: "segment (events s) (head s) bs None" "sorted_wrt (<) (map fst bs)" "distinct (members bs)"
    "\<And>x. x \<in> set (flat bs) \<Longrightarrow> now s \<le> fst (fst x)"
    using assms(1) by (auto simp: linked_def)
  have "p \<in> snd ` set (flat bs)" using assms(3) by (simp flip: set_map)
  then obtain k where "(k, p) \<in> set (flat bs)" by auto
  with segment_keys [OF l(1) this] assms(4) have k: "(ekey e, p) \<in> set (flat bs)" by auto
  have "queue e = Some (self s)" using assms(2-4) by (auto simp: on_queue_def)
  from remove_event_bins [OF l(1,3,2) k assms(4) this]
  obtain st h where st: "remove_event p s = Some (s\<lparr>events := st, head := h\<rparr>)"
    "segment st h (bin_remove (ekey e) p bs) None" "keeps (events s) st" by auto
  obtain e' where e': "st p = Some e'" "payload e' = payload e" using keepsD [OF st(3) assms(4)] by auto
  have fl: "flat (bin_remove (ekey e) p bs) = q_remove p (flat bs)"
    by (rule flat_bin_remove [OF l(2,3) k l(1)])
  have mem: "members (bin_remove (ekey e) p bs) = map snd (q_remove p (flat bs))"
    by (metis fl map_snd_flat)
  have "distinct (members (bin_remove (ekey e) p bs))"
    unfolding mem by (rule distinct_q_remove) (simp add: l(3))
  then have "linked (s\<lparr>events := st, head := h\<rparr>) (bin_remove (ekey e) p bs)"
    using st(2) l fl by (auto simp: linked_def sorted_bin_remove)
  moreover have "p \<notin> set (members (bin_remove (ekey e) p bs))"
    and sub: "set (members (bin_remove (ekey e) p bs)) \<subseteq> set (members bs)"
    unfolding mem by (auto simp flip: map_snd_flat)
  moreover have "on_queue st (self s) x = on_queue (events s) (self s) x" for x
    using st(3) by (intro on_queue_payload) (auto simp: keeps_def)
  then have "others_on p (s\<lparr>events := st, head := h\<rparr>) (bin_remove (ekey e) p bs)"
    using assms(2) sub by (auto simp: others_on_def)
  ultimately show ?thesis using st(1) fl e'
    by (intro exI [of _ "s\<lparr>events := st, head := h\<rparr>"] exI [of _ e'] exI [of _ "bin_remove (ekey e) p bs"])
      auto
qed

lemma upd_flags_Some:
  "events s p = Some e \<Longrightarrow>
    upd_flags p f s = Some (s\<lparr>events := (events s)(p \<mapsto> e\<lparr>eflags := f (eflags e)\<rparr>)\<rparr>)"
  by (simp add: upd_flags_def upd_event_def)

lemma schedule_ok:
  assumes "queue_ok s" and "events s p = Some e" "\<not> scheduled e" "initialized e" and "now s \<le> w"
    and "\<not> inParallelMode s"
  shows "\<exists>s'. schedule p w global s = Some s' \<and> queue_ok s' \<and>
    pending s' = q_insert (w, priority e) p (pending s) \<and> now s' = now s \<and> \<not> inParallelMode s'"
proof -
  obtain bs where bs: "linked s bs" "pending s = flat bs"
    "\<forall>x \<in> set (members bs). on_queue (events s) (self s) x"
    using assms(1) by (auto simp: queue_ok_linked)
  have p: "p \<notin> set (members bs)" using bs(3) assms(2,3) by (auto simp: on_queue_def)
  have "others_on p s bs" using bs(3) by (simp add: others_on_def)
  from insert_linked [OF bs(1) this p assms(2,5), of "self s"] obtain s1 e1 where s1:
    "insert_event p (s\<lparr>events := (events s)(p \<mapsto> setWhen w (self s) e)\<rparr>) = Some s1"
    "linked s1 (bin_insert (w, priority e) p bs)" "others_on p s1 (bin_insert (w, priority e) p bs)"
    "events s1 p = Some e1" "payload e1 = payload (setWhen w (self s) e)"
    "now s1 = now s" "self s1 = self s" "inParallelMode s1 = inParallelMode s" by auto
  let ?f = "set_flags Scheduled (eflags e1)"
  have e1: "queue e1 = Some (self s1)" "eflags e1 = eflags e"
    using payload_fields [OF s1(5)] s1(7) by (auto simp: setWhen_def)
  have f: "?f AND InitMask = Initialized" using assms(4) e1(2) by (simp add: initialized_def)
  have "schedule p w global s = Some (s1\<lparr>events := (events s1)(p \<mapsto> e1\<lparr>eflags := ?f\<rparr>)\<rparr>)"
    using assms s1(1,4) by (simp add: schedule_def upd_event_def upd_flags_Some acquire_def)
  then show ?thesis
    using flags_linked [OF s1(2-4) e1(1) _ f] s1(6,8) assms(6) bs(2) by (simp add: flat_bin_insert)
qed

lemma deschedule_ok:
  assumes "queue_ok s" and "p \<in> snd ` set (pending s)" and "\<not> inParallelMode s"
  shows "\<exists>s'. deschedule p s = Some s' \<and> queue_ok s' \<and> pending s' = q_remove p (pending s) \<and>
    now s' = now s \<and> \<not> inParallelMode s'"
proof -
  obtain bs where bs: "linked s bs" "pending s = flat bs"
    "\<forall>x \<in> set (members bs). on_queue (events s) (self s) x"
    using assms(1) by (auto simp: queue_ok_linked)
  have p: "p \<in> set (members bs)" using assms(2) bs(2) by (simp flip: set_map)
  then obtain e where e: "events s p = Some e" "scheduled e" "initialized e"
    using bs(3) by (fastforce simp: on_queue_def split: option.splits)
  from remove_linked [OF bs(1,3) p e(1)] obtain s1 e1 bs1 where s1: "remove_event p s = Some s1"
    "linked s1 bs1" "others_on p s1 bs1" "p \<notin> set (members bs1)" "flat bs1 = q_remove p (flat bs)"
    "events s1 p = Some e1" "now s1 = now s" "inParallelMode s1 = inParallelMode s" by auto
  let ?e2 = "e1\<lparr>eflags := clear Scheduled (clear Squashed (eflags e1))\<rparr>"
  have "deschedule p s = Some (s1\<lparr>events := (events s1)(p := if isManaged ?e2 then None else Some ?e2)\<rparr>)"
    using e s1(1,6) assms(3)
    by (simp add: deschedule_def upd_flags_Some release_def scheduled_def)
  then show ?thesis
    using linked_off [OF s1(2-4)] s1(5,7,8) bs(2) assms(3) by simp
qed

lemma reschedule_ok:
  assumes "queue_ok s" and "events s p = Some e" "initialized e" and "now s \<le> w"
    and "scheduled e \<longrightarrow> p \<in> snd ` set (pending s)" and "\<not> inParallelMode s"
  shows "\<exists>s'. reschedule p w True s = Some s' \<and> queue_ok s' \<and>
    pending s' = q_insert (w, priority e) p (q_remove p (pending s)) \<and> now s' = now s \<and>
    \<not> inParallelMode s'"
proof -
  obtain bs where bs: "linked s bs" "pending s = flat bs"
    "\<forall>x \<in> set (members bs). on_queue (events s) (self s) x"
    using assms(1) by (auto simp: queue_ok_linked)
  have mem: "p \<in> set (members bs) \<longleftrightarrow> scheduled e"
    using assms(2,5) bs(2,3) by (auto simp: on_queue_def simp flip: set_map)
  obtain s1 e1 bs1 where s1: "(if scheduled e then remove_event p s else acquire p s) = Some s1"
    "linked s1 bs1" "others_on p s1 bs1" "p \<notin> set (members bs1)" "flat bs1 = q_remove p (flat bs)"
    "events s1 p = Some e1" "payload e1 = payload e" "now s1 = now s" "self s1 = self s"
    "inParallelMode s1 = inParallelMode s"
  proof (cases "scheduled e")
    case True
    then show ?thesis using remove_linked [OF bs(1,3) _ assms(2)] mem that by auto
  next
    case False
    have "q_remove p (flat bs) = flat bs" unfolding q_remove_def
      using mem False by (intro filter_True) (auto simp flip: map_snd_flat simp: image_iff)
    then show ?thesis
      using False mem assms(2) bs by (intro that [of s bs e]) (auto simp: acquire_def others_on_def)
  qed
  have w: "now s1 \<le> w" "priority e1 = priority e" "eflags e1 = eflags e"
    using assms(4) s1(8) payload_fields [OF s1(7)] by auto
  from insert_linked [OF s1(2-4,6) w(1), of "self s1"] obtain s2 e2 where s2:
    "insert_event p (s1\<lparr>events := (events s1)(p \<mapsto> setWhen w (self s1) e1)\<rparr>) = Some s2"
    "linked s2 (bin_insert (w, priority e1) p bs1)" "others_on p s2 (bin_insert (w, priority e1) p bs1)"
    "events s2 p = Some e2" "payload e2 = payload (setWhen w (self s1) e1)"
    "now s2 = now s1" "self s2 = self s1" "inParallelMode s2 = inParallelMode s1" by auto
  let ?f = "set_flags Scheduled (clear Squashed (eflags e2))"
  have e2: "queue e2 = Some (self s2)" "eflags e2 = eflags e"
    using payload_fields [OF s2(5)] s2(7) w by (auto simp: setWhen_def)
  have f: "?f AND InitMask = Initialized" using assms(3) e2(2) by (simp add: initialized_def)
  have "reschedule p w True s = Some (s2\<lparr>events := (events s2)(p \<mapsto> e2\<lparr>eflags := ?f\<rparr>)\<rparr>)"
    using assms s1(1,6) s2(1,4) by (simp add: reschedule_def upd_event_def upd_flags_Some)
  then show ?thesis
    using flags_linked [OF s2(2-4) e2(1) _ f] s1(5,8,10) s2(6,8) w(2) assms(6) bs(2)
    by (simp add: flat_bin_insert)
qed

lemma popHead_ok:
  assumes "queue_ok s" and "pending s = (k, p) # q"
  shows "\<exists>s' e. popHead s = Some (p, s') \<and> queue_ok s' \<and> pending s' = q \<and> now s' = now s \<and>
    events s' p = Some e \<and> \<not> scheduled e \<and> initialized e \<and> ekey e = k \<and>
    inParallelMode s' = inParallelMode s"
proof -
  obtain bs where bs: "linked s bs" "flat bs = (k, p) # q"
    "\<forall>x \<in> set (members bs). on_queue (events s) (self s) x"
    using assms by (auto simp: queue_ok_linked)
  then obtain xs cs where b: "bs = (k, p, xs) # cs" and q: "q = map (Pair k) xs @ flat cs"
    by (cases bs rule: members.cases) auto
  have l: "segment (events s) (head s) bs None" "sorted_wrt (<) (map fst bs)" "distinct (members bs)"
    "\<And>x. x \<in> set (flat bs) \<Longrightarrow> now s \<le> fst (fst x)"
    using bs(1) by (auto simp: linked_def)
  from l(1) b obtain e where e: "head s = Some p" "events s p = Some e" "ekey e = k" by auto
  have i: "initialized e" using bs(3) b e by (auto simp: on_queue_def)
  from removeItem_segment [of "events s" p k xs cs None p] l(1,3) b e(1)
  obtain t st where t: "removeItem p p (events s) = Some (t, st)" "segment st t (bin_pop p bs) None"
    "keeps (events s) st" by auto
  let ?s1 = "s\<lparr>events := st, head := t\<rparr>"
  have flp: "flat (bin_pop p bs) = q" using b q by (auto split: list.split)
  have mem: "members (bin_pop p bs) = map snd q" using map_snd_flat [of "bin_pop p bs"] flp by simp
  have "distinct (map snd q)" "p \<notin> set (map snd q)" "set (map snd q) \<subseteq> set (members bs)"
    using l(3) b q by (auto simp: comp_def)
  moreover have "on_queue st (self s) x = on_queue (events s) (self s) x" for x
    using t(3) by (intro on_queue_payload) (auto simp: keeps_def)
  ultimately have o: "linked ?s1 (bin_pop p bs)" "others_on p ?s1 (bin_pop p bs)"
    "p \<notin> set (members (bin_pop p bs))"
    using t(2) l(2,4) bs(2,3) by (auto simp: linked_def others_on_def mem flp sorted_bin_pop)
  obtain e1 where e1: "st p = Some e1" "payload e1 = payload e" using keepsD [OF t(3) e(2)] by auto
  let ?e2 = "e\<lparr>eflags := clear Scheduled (eflags e)\<rparr>"
  have "popHead s = Some (p, ?s1\<lparr>events := st(p \<mapsto> ?e2)\<rparr>)"
    using t(1) e l(3) b
    by (auto simp: popHead_def removeItem_def upd_flags_Some upd_event_def fun_upd_twist
        split: option.splits if_splits)
  then show ?thesis
    using linked_off [OF o, of "Some ?e2"] flp e i
    by (intro exI [of _ "?s1\<lparr>events := st(p \<mapsto> ?e2)\<rparr>"] exI [of _ ?e2])
      (auto simp: scheduled_def initialized_def)
qed

text \<open>\<open>serviceOne\<close> up to the point where the handler runs.\<close>

definition beginService :: "event_queue \<Rightarrow> (evptr \<times> event_queue) option" where
  "beginService s = do {
     (h, s) \<leftarrow> popHead s;
     e \<leftarrow> events s h;
     Some (h, if squashed e then s else setCurTick (ev_when e) s) }"

lemma setCurTick_sel [simp]:
  "events (setCurTick t s) = events s" "head (setCurTick t s) = head s" "now (setCurTick t s) = t"
  "self (setCurTick t s) = self s" "inParallelMode (setCurTick t s) = inParallelMode s"
  by (simp_all add: setCurTick_def)

lemma queue_ok_now:
  assumes "queue_ok s" and "\<forall>x \<in> set (pending s). t \<le> fst (fst x)"
  shows "queue_ok (setCurTick t s)" and "pending (setCurTick t s) = pending s"
proof -
  show p: "pending (setCurTick t s) = pending s"
    by (simp add: pending_def dump_def cong: option.case_cong)
  show "queue_ok (setCurTick t s)"
    using assms p by (simp add: queue_ok_def rep_def)
qed

lemma beginService_ok:
  assumes "queue_ok s" and "pending s = (k, p) # q"
  shows "\<exists>s' e. beginService s = Some (p, s') \<and> queue_ok s' \<and> pending s' = q \<and>
    events s' p = Some e \<and> \<not> scheduled e \<and> initialized e \<and>
    now s' = (if squashed e then now s else fst k) \<and> inParallelMode s' = inParallelMode s"
proof -
  obtain s1 e where s1: "popHead s = Some (p, s1)" "queue_ok s1" "pending s1 = q" "now s1 = now s"
    "events s1 p = Some e" "\<not> scheduled e" "initialized e" "ekey e = k"
    "inParallelMode s1 = inParallelMode s"
    using popHead_ok [OF assms] by blast
  have "\<forall>x \<in> set q. k \<le> fst x"
    using queue_ok_sorted(1) [OF assms(1)] assms(2) by (simp add: q_sorted_def)
  then have "\<forall>x \<in> set (pending s1). fst k \<le> fst (fst x)"
    using s1(3) by (auto simp: less_eq_prod_def less_imp_le)
  note ok = queue_ok_now [OF s1(2) this]
  have "ev_when e = fst k" using s1(8) by (auto simp: ekey_def)
  then have "beginService s = Some (p, if squashed e then s1 else setCurTick (fst k) s1)"
    using s1(1,5) by (simp add: beginService_def)
  then show ?thesis using s1 ok by (cases "squashed e") auto
qed

lemma serviceOne_begin:
  "serviceOne process s = do {
     (h, s) \<leftarrow> beginService s;
     e \<leftarrow> events s h;
     if \<not> squashed e then do {
       s \<leftarrow> process h s;
       e \<leftarrow> events s h;
       if isExitEvent e then do {
         check (\<not> isManaged e \<or> \<not> isSet (eflags e) IsMainQueue);
         Some (Some h, s) }
       else do { s \<leftarrow> release h s; Some (None, s) } }
     else do {
       s \<leftarrow> upd_flags h (clear Squashed) s;
       s \<leftarrow> release h s;
       Some (None, s) } }"
proof (cases "popHead s")
  case (Some r)
  obtain h s1 where r: "r = (h, s1)" by (cases r)
  show ?thesis
  proof (cases "events s1 h")
    case (Some e)
    then show ?thesis
      by (cases "squashed e") (simp_all add: serviceOne_def beginService_def \<open>popHead s = _\<close> r setCurTick_def)
  qed (simp add: serviceOne_def beginService_def \<open>popHead s = _\<close> r)
qed (simp add: serviceOne_def beginService_def)

section \<open>Runs of the queue\<close>

text \<open>
  What the simulator does with a queue: objects schedule, deschedule and reschedule
  their events, and the event loop starts to serve the first one. The calls that a
  handler makes follow the \<open>Serve\<close> that started it.
\<close>

datatype eq_action =
    Schedule evptr evkey
  | Deschedule evptr
  | Reschedule evptr evkey
  | Serve

fun eq_act :: "eq_action \<Rightarrow> event_queue \<Rightarrow> event_queue option" where
  "eq_act (Schedule p k) s = schedule p (fst k) False s"
| "eq_act (Deschedule p) s = deschedule p s"
| "eq_act (Reschedule p k) s = reschedule p (fst k) True s"
| "eq_act Serve s = map_option snd (beginService s)"

definition can_place :: "evptr \<Rightarrow> evkey \<Rightarrow> event_queue \<Rightarrow> bool" where
  "can_place p k s = (case events s p of None \<Rightarrow> False
     | Some e \<Rightarrow> initialized e \<and> priority e = snd k \<and> now s \<le> fst k \<and>
         (scheduled e \<longrightarrow> p \<in> snd ` set (pending s)))"

fun eq_guard :: "eq_action \<Rightarrow> event_queue \<Rightarrow> bool" where
  "eq_guard (Schedule p k) s = (can_place p k s \<and> p \<notin> snd ` set (pending s))"
| "eq_guard (Deschedule p) s = (p \<in> snd ` set (pending s))"
| "eq_guard (Reschedule p k) s = can_place p k s"
| "eq_guard Serve s = (pending s \<noteq> [])"

text \<open>The same actions on the list of pending events.\<close>

fun agenda_act :: "eq_action \<Rightarrow> evptr evq \<Rightarrow> evptr evq" where
  "agenda_act (Schedule p k) q = q_insert k p q"
| "agenda_act (Deschedule p) q = q_remove p q"
| "agenda_act (Reschedule p k) q = q_insert k p (q_remove p q)"
| "agenda_act Serve q = tl q"

definition serial_ok :: "event_queue \<Rightarrow> bool" where
  "serial_ok s \<longleftrightarrow> queue_ok s \<and> \<not> inParallelMode s"

lemma eq_step:
  assumes "serial_ok s" and "eq_guard a s"
  shows "\<exists>s'. eq_act a s = Some s' \<and> serial_ok s' \<and> pending s' = agenda_act a (pending s) \<and>
    now s \<le> now s'"
proof (cases a)
  case (Schedule p k)
  with assms obtain e where e: "events s p = Some e" "initialized e" "priority e = snd k"
    "now s \<le> fst k" "\<not> scheduled e" by (auto simp: can_place_def split: option.splits)
  from schedule_ok [OF _ e(1,5,2,4), of False] show ?thesis
    using assms(1) Schedule e(3) by (auto simp: serial_ok_def)
next
  case (Deschedule p)
  then show ?thesis
    using deschedule_ok [of s p] assms by (auto simp: serial_ok_def)
next
  case (Reschedule p k)
  with assms obtain e where e: "events s p = Some e" "initialized e" "priority e = snd k"
    "now s \<le> fst k" "scheduled e \<longrightarrow> p \<in> snd ` set (pending s)"
    by (auto simp: can_place_def split: option.splits)
  from reschedule_ok [OF _ e(1,2,4,5)] show ?thesis
    using assms(1) Reschedule e(3) by (auto simp: serial_ok_def)
next
  case Serve
  with assms obtain k p q where q: "pending s = (k, p) # q" by (cases "pending s") auto
  have ok: "queue_ok s" using assms(1) by (simp add: serial_ok_def)
  have "now s \<le> fst k" using ok q by (auto simp: queue_ok_def)
  then show ?thesis
    using beginService_ok [OF ok q] assms(1) Serve q by (auto simp: serial_ok_def)
qed

interpretation eqs: refined_system eq_act eq_guard serial_ok pending agenda_act
proof
  fix s a
  assume a: "serial_ok s" "eq_guard a s"
  show "\<exists>s'. eq_act a s = Some s' \<and> serial_ok s'" using eq_step [OF a] by blast
  fix s'
  assume "eq_act a s = Some s'"
  then show "pending s' = agenda_act a (pending s)" using eq_step [OF a] by auto
qed

lemma now_mono:
  assumes "serial_ok s" and "admissible eq_guard eq_act as s" and "exec eq_act as s = Some s'"
  shows "now s \<le> now s'"
  using assms
proof (induction as arbitrary: s)
  case (Cons a as)
  then obtain s1 where s1: "eq_act a s = Some s1" "serial_ok s1" "now s \<le> now s1"
    using eq_step [of s a] by auto
  moreover have "now s1 \<le> now s'" using Cons s1 by auto
  ultimately show ?case by (rule_tac order_trans)
qed simp

text \<open>A new queue.\<close>

lemma new_queue_ok: "serial_ok (mkEventQueue q st)" "pending (mkEventQueue q st) = []"
proof -
  have "linked (mkEventQueue q st) []" by (simp add: linked_def mkEventQueue_def)
  then show "serial_ok (mkEventQueue q st)" "pending (mkEventQueue q st) = []"
    by (auto simp: serial_ok_def queue_ok_linked linked_pending) (simp add: mkEventQueue_def)
qed

section \<open>Serving an event\<close>

lemma queue_ok_off:
  assumes "queue_ok s" and "p \<notin> snd ` set (pending s)"
  shows "queue_ok (s\<lparr>events := (events s)(p := r)\<rparr>)"
    and "pending (s\<lparr>events := (events s)(p := r)\<rparr>) = pending s"
proof -
  obtain bs where bs: "linked s bs" "pending s = flat bs"
    "\<forall>x \<in> set (members bs). on_queue (events s) (self s) x"
    using assms(1) by (auto simp: queue_ok_linked)
  have "others_on p s bs" "p \<notin> set (members bs)"
    using bs assms(2) by (auto simp: others_on_def simp flip: set_map)
  from linked_off [OF bs(1) this, of r] bs(2)
  show "queue_ok (s\<lparr>events := (events s)(p := r)\<rparr>)"
    and "pending (s\<lparr>events := (events s)(p := r)\<rparr>) = pending s" by auto
qed

lemma pending_scheduled:
  assumes "queue_ok s" and "events s p = Some e" and "\<not> scheduled e"
  shows "p \<notin> snd ` set (pending s)"
  using assms by (fastforce simp: queue_ok_def on_queue_def)

lemma release_ok:
  assumes "queue_ok s" and "events s p = Some e"
  shows "\<exists>s'. release p s = Some s' \<and> queue_ok s' \<and> pending s' = pending s \<and> now s' = now s"
proof (cases "isManaged e \<and> \<not> scheduled e")
  case True
  then have "p \<notin> snd ` set (pending s)" using pending_scheduled [OF assms] by simp
  from queue_ok_off [OF assms(1) this, of None] True show ?thesis
    using assms(2) by (simp add: release_def)
next
  case False
  then show ?thesis using assms by (auto simp: release_def)
qed

text \<open>
  The flags that the queue leaves alone while an event waits: all but \<open>Scheduled\<close>.
\<close>

definition kept_flags :: "event_queue \<Rightarrow> evptr \<Rightarrow> u16 option" where
  "kept_flags s p = map_option (\<lambda>e. clear Scheduled (eflags e)) (events s p)"

lemma clear_clear: "clear m (clear m f) = clear m f"
  by (simp add: clear_def and.assoc)

lemma kept_flags_read:
  assumes "kept_flags s p = kept_flags s' p" and "events s p = Some e" and "events s' p = Some e'"
  shows "squashed e = squashed e'" and "isExitEvent e = isExitEvent e'"
    and "isManaged e = isManaged e'" and "isSet (eflags e) IsMainQueue = isSet (eflags e') IsMainQueue"
proof -
  have "clear Scheduled (eflags e) = clear Scheduled (eflags e')"
    using assms by (simp add: kept_flags_def)
  then have f: "isSet (eflags e) m = isSet (eflags e') m" if "m AND Scheduled = 0" for m
    using isSet_clear_other [OF that] by metis
  show "squashed e = squashed e'" "isExitEvent e = isExitEvent e'" "isManaged e = isManaged e'"
    "isSet (eflags e) IsMainQueue = isSet (eflags e') IsMainQueue"
    by (simp_all add: squashed_def isExitEvent_def isManaged_def f
        Squashed_def IsExitEvent_def Managed_def IsMainQueue_def Scheduled_def)
qed

lemma popHead_keeps:
  assumes "popHead s = Some (h, s')"
  shows "kept_flags s' = kept_flags s" and "\<exists>st q. s' = s\<lparr>events := st, head := q\<rparr>"
proof -
  obtain he where h: "head s = Some h" "events s h = Some he"
    using assms by (auto simp: popHead_def split: bind_splits option.splits)
  let ?st = "(events s)(h \<mapsto> he\<lparr>eflags := clear Scheduled (eflags he)\<rparr>)"
  consider "nextInBin he = None" "s' = s\<lparr>events := ?st, head := nextBin he\<rparr>"
    | n ne where "nextInBin he = Some n" "?st n = Some ne"
        "s' = s\<lparr>events := ?st(n \<mapsto> ne\<lparr>nextBin := nextBin he\<rparr>), head := Some n\<rparr>"
    using assms h
    by (cases "nextInBin he") (auto simp: popHead_def upd_flags_Some upd_event_def split: option.splits)
  then have "kept_flags s' = kept_flags s \<and> (\<exists>st q. s' = s\<lparr>events := st, head := q\<rparr>)"
    using h by cases (auto simp: kept_flags_def clear_clear fun_eq_iff split: if_splits)
  then show "kept_flags s' = kept_flags s" "\<exists>st q. s' = s\<lparr>events := st, head := q\<rparr>" by auto
qed

text \<open>
  What \<open>serviceEvents\<close> relies on in the handlers: called on an event in any well-formed
  queue, a handler returns, and it keeps the queue well formed, the pending events as
  they are and the flags of the events. What the handlers do besides is observed through
  a function \<open>log\<close> that the operations of the queue do not change: a call for event \<open>p\<close>
  at tick \<open>t\<close> changes it by \<open>g (p, t)\<close>.
\<close>

definition queue_free :: "(event_queue \<Rightarrow> 'l) \<Rightarrow> bool" where
  "queue_free log \<longleftrightarrow> (\<forall>s st h t. log (s\<lparr>events := st, head := h, now := t\<rparr>) = log s)"

definition handlers_log :: "(evptr \<Rightarrow> event_queue \<Rightarrow> event_queue option) \<Rightarrow>
    (event_queue \<Rightarrow> 'l) \<Rightarrow> (evptr \<times> Tick \<Rightarrow> 'l \<Rightarrow> 'l) \<Rightarrow> bool" where
  "handlers_log process log g \<longleftrightarrow> (\<forall>p s. queue_ok s \<longrightarrow> events s p \<noteq> None \<longrightarrow>
     (\<exists>s'. process p s = Some s' \<and> queue_ok s' \<and> pending s' = pending s \<and>
        kept_flags s' = kept_flags s \<and> log s' = g (p, now s) (log s)))"

text \<open>The assertion of \<open>serviceOne\<close>: an exit event of the main queue is not managed.\<close>

definition exit_ok :: "event_queue \<Rightarrow> evptr \<Rightarrow> bool" where
  "exit_ok s p = (case events s p of None \<Rightarrow> True | Some e \<Rightarrow>
     \<not> (isExitEvent e \<and> isManaged e \<and> isSet (eflags e) IsMainQueue))"

definition squashed_at :: "event_queue \<Rightarrow> evptr \<Rightarrow> bool" where
  "squashed_at s p = (case events s p of None \<Rightarrow> False | Some e \<Rightarrow> squashed e)"

text \<open>The calls of handlers that a list of pending events stands for.\<close>

definition calls_of :: "event_queue \<Rightarrow> (evkey \<times> evptr) list \<Rightarrow> (evptr \<times> Tick) list" where
  "calls_of s q = map (\<lambda>(k, p). (p, fst k)) (filter (\<lambda>(k, p). \<not> squashed_at s p) q)"

lemma kept_flags_cong:
  assumes "kept_flags s p = kept_flags s' p"
  shows "squashed_at s p = squashed_at s' p" and "exit_ok s p = exit_ok s' p"
proof -
  have "squashed_at s p = squashed_at s' p \<and> exit_ok s p = exit_ok s' p"
  proof (cases "events s p")
    case None
    then have "events s' p = None" using assms by (simp add: kept_flags_def)
    with None show ?thesis by (simp add: squashed_at_def exit_ok_def)
  next
    case (Some e)
    then obtain e' where e': "events s' p = Some e'" using assms by (cases "events s' p") (auto simp: kept_flags_def)
    note f = kept_flags_read [OF assms Some e']
    show ?thesis unfolding squashed_at_def exit_ok_def Some e' option.case f by simp
  qed
  then show "squashed_at s p = squashed_at s' p" "exit_ok s p = exit_ok s' p" by auto
qed

lemma queue_free_sel:
  assumes "queue_free log"
  shows "log (s\<lparr>events := st, head := h\<rparr>) = log s" and "log (s\<lparr>events := st\<rparr>) = log s"
    and "log (setCurTick t s) = log s"
  using assms [unfolded queue_free_def, rule_format, of "now s" h st s]
    assms [unfolded queue_free_def, rule_format, of "now s" "head s" st s]
    assms [unfolded queue_free_def, rule_format, of t "head s" "events s" s]
  by (simp_all add: setCurTick_def)

lemma beginService_keeps:
  assumes "beginService s = Some (h, s')" and "queue_free log"
  shows "kept_flags s' = kept_flags s" and "log s' = log s"
proof -
  obtain s1 e where s1: "popHead s = Some (h, s1)" "s' = (if squashed e then s1 else setCurTick (ev_when e) s1)"
    using assms(1) by (auto simp: beginService_def split: bind_splits)
  obtain st q where "s1 = s\<lparr>events := st, head := q\<rparr>" using popHead_keeps(2) [OF s1(1)] by auto
  then show "log s' = log s" using s1(2) queue_free_sel [OF assms(2)] by simp
  show "kept_flags s' = kept_flags s"
    using s1(2) popHead_keeps(1) [OF s1(1)] by (simp add: kept_flags_def fun_eq_iff)
qed

lemma release_keeps:
  assumes "release p s = Some s'" and "queue_free log"
  shows "q \<noteq> p \<Longrightarrow> kept_flags s' q = kept_flags s q" and "log s' = log s"
  using assms queue_free_sel by (auto simp: release_def kept_flags_def split: bind_splits if_splits)

lemma serviceOne_ok:
  assumes "queue_ok s" and "pending s = (k, p) # q" and "exit_ok s p"
    and "queue_free log" and "handlers_log process log g"
  shows "\<exists>r s'. serviceOne process s = Some (r, s') \<and> queue_ok s' \<and> pending s' = q \<and>
    (\<forall>x. x \<noteq> p \<longrightarrow> kept_flags s' x = kept_flags s x) \<and>
    log s' = (if squashed_at s p then log s else g (p, fst k) (log s))"
proof -
  obtain s1 e where e: "beginService s = Some (p, s1)" "queue_ok s1" "pending s1 = q"
    "events s1 p = Some e" "\<not> scheduled e" "now s1 = (if squashed e then now s else fst k)"
    using beginService_ok [OF assms(1,2)] by auto
  note b = beginService_keeps [OF e(1) assms(4)]
  have sq: "squashed_at s p = squashed e" and ex: "exit_ok s1 p"
    using kept_flags_cong [of s p s1] b(1) assms(3) e(4) by (auto simp: squashed_at_def)
  show ?thesis
  proof (cases "squashed e")
    case True
    let ?e = "e\<lparr>eflags := clear Squashed (eflags e)\<rparr>"
    let ?s = "s1\<lparr>events := (events s1)(p \<mapsto> ?e)\<rparr>"
    have p: "p \<notin> snd ` set (pending s1)" using pending_scheduled e by blast
    note ok = queue_ok_off [OF e(2) p, of "Some ?e"]
    obtain s3 where s3: "release p ?s = Some s3" "queue_ok s3" "pending s3 = q"
      using release_ok [OF ok(1), of p ?e] ok(2) e True by auto
    have "kept_flags s3 x = kept_flags s x" if "x \<noteq> p" for x
      using release_keeps(1) [OF s3(1) assms(4) that] that b(1) by (simp add: kept_flags_def fun_eq_iff)
    then show ?thesis
      using True e s3 sq b release_keeps(2) [OF s3(1) assms(4)] queue_free_sel(2) [OF assms(4)]
      by (simp add: serviceOne_begin upd_flags_Some)
  next
    case False
    obtain s2 where s2: "process p s1 = Some s2" "queue_ok s2" "pending s2 = q"
      "kept_flags s2 = kept_flags s1" "log s2 = g (p, fst k) (log s1)"
      using assms(5) e False unfolding handlers_log_def by (metis option.distinct(1))
    obtain e2 where e2: "events s2 p = Some e2"
      using s2(4) e(4) by (auto simp: kept_flags_def fun_eq_iff dest!: spec [of _ p])
    have "exit_ok s2 p" using ex kept_flags_cong(2) [of s1 p s2] s2(4) by simp
    then have c: "\<not> (isExitEvent e2 \<and> isManaged e2 \<and> isSet (eflags e2) IsMainQueue)"
      using e2 by (simp add: exit_ok_def)
    obtain s3 where s3: "release p s2 = Some s3" "queue_ok s3" "pending s3 = q"
      using release_ok [OF s2(2) e2] s2(3) by auto
    show ?thesis
      using False e s2 e2 c s3 sq b release_keeps [OF s3(1) assms(4)]
      by (cases "isExitEvent e2") (auto simp: serviceOne_begin abort_simps)
  qed
qed

text \<open>\<open>serviceEvents\<close> with such handlers serves the events that are due and stops.\<close>

lemma queue_ok_head:
  assumes "queue_ok s"
  shows "empty_queue s \<longleftrightarrow> pending s = []"
    and "pending s = (k, p) # q \<Longrightarrow> nextTick s = Some (fst k)"
proof -
  obtain bs where bs: "segment (events s) (head s) bs None" "pending s = flat bs"
    using assms by (auto elim: queue_okE)
  then show "empty_queue s \<longleftrightarrow> pending s = []"
    by (cases bs rule: members.cases) (auto simp: empty_queue_def)
  show "pending s = (k, p) # q \<Longrightarrow> nextTick s = Some (fst k)"
    using bs by (cases bs rule: members.cases) (auto simp: nextTick_def ekey_def)
qed

lemma calls_of_cong:
  assumes "\<forall>x \<in> snd ` set q. kept_flags s' x = kept_flags s x"
  shows "calls_of s' q = calls_of s q"
proof -
  have "filter (\<lambda>(k, p). \<not> squashed_at s' p) q = filter (\<lambda>(k, p). \<not> squashed_at s p) q"
  proof (rule filter_cong)
    fix x assume "x \<in> set q"
    then have "kept_flags s' (snd x) = kept_flags s (snd x)" using assms by simp
    from kept_flags_cong(1) [OF this] show
      "(case x of (k, p) \<Rightarrow> \<not> squashed_at s' p) = (case x of (k, p) \<Rightarrow> \<not> squashed_at s p)"
      by (cases x) simp
  qed simp
  then show ?thesis by (simp add: calls_of_def)
qed

lemma serviceEvents_ok:
  assumes "queue_ok s" and "\<forall>x \<in> set (pending s). fst (fst x) \<le> w \<longrightarrow> exit_ok s (snd x)"
    and "queue_free log" and "handlers_log process log g"
  shows "\<exists>s'. serviceEvents process w s = Some s' \<and> now s' = w \<and>
    pending s' = dropWhile (\<lambda>x. fst (fst x) \<le> w) (pending s) \<and>
    log s' = fold g (calls_of s (takeWhile (\<lambda>x. fst (fst x) \<le> w) (pending s))) (log s)"
  using assms(1,2)
proof (induction "pending s" arbitrary: s)
  case Nil
  then have "empty_queue s" using queue_ok_head(1) by metis
  moreover have "pending (setCurTick w s) = []" using queue_ok_now(2) [of s w] Nil by simp
  ultimately show ?case
    using Nil queue_free_sel(3) [OF assms(3)] by (subst serviceEvents.simps) (simp add: calls_of_def)
next
  case (Cons x q)
  obtain k p where x: "x = (k, p)" by (cases x)
  note pend = Cons.hyps(2) [symmetric, unfolded x]
  have ne: "\<not> empty_queue s" and nt: "nextTick s = Some (fst k)"
    using queue_ok_head [OF Cons.prems(1)] pend by auto
  show ?case
  proof (cases "w < fst k")
    case True
    have "\<forall>y \<in> set (pending s). w \<le> fst (fst y)"
      using queue_ok_sorted(1) [OF Cons.prems(1)] pend True
      by (fastforce simp: q_sorted_def less_eq_prod_def)
    from queue_ok_now(2) [OF Cons.prems(1) this] show ?thesis
      using True less_le_not_le [THEN iffD1, OF True] ne nt pend queue_free_sel(3) [OF assms(3)]
      by (subst serviceEvents.simps) (simp add: calls_of_def)
  next
    case False
    then have "exit_ok s p" using Cons.prems(2) pend by simp
    from serviceOne_ok [OF Cons.prems(1) pend this assms(3,4)]
    obtain r s' where s': "serviceOne process s = Some (r, s')" "queue_ok s'" "pending s' = q"
      "\<And>x. x \<noteq> p \<Longrightarrow> kept_flags s' x = kept_flags s x"
      "log s' = (if squashed_at s p then log s else g (p, fst k) (log s))"
      by blast
    have "p \<notin> snd ` set q" using queue_ok_sorted(2) [OF Cons.prems(1)] pend by simp
    then have kf: "\<forall>x \<in> snd ` set q. kept_flags s' x = kept_flags s x" by (intro ballI s'(4)) blast
    have "\<forall>x \<in> set q. fst (fst x) \<le> w \<longrightarrow> exit_ok s' (snd x)"
    proof (intro ballI impI)
      fix x assume x: "x \<in> set q" "fst (fst x) \<le> w"
      then have "exit_ok s (snd x)" using Cons.prems(2) pend by simp
      moreover have "kept_flags s' (snd x) = kept_flags s (snd x)" using kf x(1) by simp
      ultimately show "exit_ok s' (snd x)" using kept_flags_cong(2) by metis
    qed
    from Cons.hyps(1) [OF s'(3) [symmetric] s'(2)] this
    obtain s2 where s2: "serviceEvents process w s' = Some s2" "now s2 = w"
      "pending s2 = dropWhile (\<lambda>x. fst (fst x) \<le> w) q"
      "log s2 = fold g (calls_of s' (takeWhile (\<lambda>x. fst (fst x) \<le> w) q)) (log s')"
      using s'(3) by auto
    have "calls_of s' (takeWhile (\<lambda>x. fst (fst x) \<le> w) q) = calls_of s (takeWhile (\<lambda>x. fst (fst x) \<le> w) q)"
      using kf by (intro calls_of_cong) (auto dest: set_takeWhileD)
    then show ?thesis
      using False leI [OF False] ne nt s'(1,5) s2 pend
      by (subst serviceEvents.simps) (simp add: calls_of_def)
  qed
qed

section \<open>Debugging and checkpoints\<close>

lemma verifyBin_stack:
  assumes "stack st k p xs" and "distinct xs" and "set xs \<inter> set seen = {}" and "(t, pr) \<le> k"
  shows "verifyBin st p (t, pr, seen) =
    Some (Inr (if xs = [] then (t, pr, seen) else (fst k, snd k, rev xs @ seen)))"
  using assms
proof (induction xs arbitrary: p t pr seen)
  case Nil
  then show ?case by (subst verifyBin.simps) simp
next
  case (Cons x xs)
  then obtain e where e: "p = Some x" "st x = Some e" "ekey e = k" "stack st k (nextInBin e) xs"
    by auto
  then have k: "ev_when e = fst k" "priority e = snd k" by (auto simp: ekey_def)
  have "verifyOne (t, pr, seen) x e = Inr (fst k, snd k, x # seen)"
    using Cons.prems(3,4) k by (auto simp: verifyOne_def less_eq_prod_def)
  with e Cons.IH [OF e(4), of "x # seen" "fst k" "snd k"] Cons.prems show ?case
    by (subst verifyBin.simps) auto
qed

lemma verifyBins_segment:
  assumes "segment st p bs None" and "sorted_wrt (<) (map fst bs)" and "distinct (members bs)"
    and "set (members bs) \<inter> set seen = {}" and "bs = [] \<or> (t, pr) \<le> fst (hd bs)"
  shows "verifyBins st p (t, pr, seen) = Some True"
  using assms
proof (induction bs arbitrary: p t pr seen rule: members.induct)
  case 1
  then show ?case by (subst verifyBins.simps) simp
next
  case (2 k x xs bs)
  then obtain e where e: "p = Some x" "st x = Some e" "stack st k p (x # xs)"
    "segment st (nextBin e) bs None" by auto
  have "verifyBin st p (t, pr, seen) = Some (Inr (fst k, snd k, rev (x # xs) @ seen))"
    using verifyBin_stack [OF e(3), of seen t pr] "2.prems" by auto
  moreover have "bs = [] \<or> k \<le> fst (hd bs)" using "2.prems"(2) by (cases bs) auto
  then have "verifyBins st (nextBin e) (fst k, snd k, rev (x # xs) @ seen) = Some True"
    using "2.IH" [OF e(4), of "rev (x # xs) @ seen" "fst k" "snd k"] "2.prems" by auto
  ultimately show ?case using e by (subst verifyBins.simps) simp
qed

lemma serialize_flags:
  assumes "initialized e"
  shows "set_flags Initialized (eflags e) = eflags e"
proof -
  have "eflags e AND InitMask = Initialized" using assms by (simp add: initialized_def)
  then have "set_flags Initialized (eflags e) = eflags e OR (eflags e AND InitMask)"
    by (simp add: set_flags_def)
  also have "\<dots> = eflags e" by (rule bit_word_eqI) (auto simp: bit_simps)
  finally show ?thesis .
qed

section \<open>The theorems\<close>

text \<open>A queue with three events of default priority, as the link schedules them.\<close>

definition three_events :: store where
  "three_events = (\<lambda>p. if p < 3 then newEvent 0 0 else None)"

definition demo_actions :: "eq_action list" where
  "demo_actions = [Schedule 0 (500, 0), Schedule 1 (250, 0), Schedule 2 (500, 0), Serve,
     Reschedule 0 (250, 0), Deschedule 2, Schedule 1 (250, 0), Serve]"

declare findBin.simps [code] findInBin.simps [code] dumpBin.simps [code] dumpBins.simps [code]

text \<open>
  C14: The linked bins of the event queue implement a sorted list of events. From any
  well-formed queue, every sequence of calls that schedule events at or after the current
  tick, deschedule or reschedule pending events, and serve the first one returns, without
  an assertion or panic. The pending events are then those of the list on which
  scheduling inserts before the first event that is not due earlier (so that events of
  the same tick and priority are served last in, first out), they are sorted by tick and
  priority, \<open>dump\<close> visits them in that order, and the current tick has not gone back.
\<close>

theorem event_queue_refines:
  assumes "serial_ok s" and "admissible eq_guard eq_act as s"
  shows "\<exists>s'. exec eq_act as s = Some s' \<and> serial_ok s' \<and>
    pending s' = fold agenda_act as (pending s) \<and> q_sorted (pending s') \<and>
    dump s' = Some (map snd (pending s')) \<and> now s \<le> now s'"
proof -
  obtain s' where s': "exec eq_act as s = Some s'" "serial_ok s'"
    "pending s' = fold agenda_act as (pending s)"
    using eqs.exec_refines [OF assms] by auto
  then show ?thesis
    using queue_ok_sorted [of s'] now_mono [OF assms s'(1)] by (auto simp: serial_ok_def)
qed

theorem event_queue_refines_witness:
  "\<exists>s'. exec eq_act demo_actions (mkEventQueue 7 three_events) = Some s' \<and>
    pending s' = [((250, 0), 0)]"
proof -
  have "admissible eq_guard eq_act demo_actions (mkEventQueue 7 three_events)"
    by code_simp
  moreover have "fold agenda_act demo_actions [] = [((250, 0), 0)]" by code_simp
  ultimately show ?thesis
    using event_queue_refines [OF new_queue_ok(1), of demo_actions 7 three_events]
    by (auto simp: new_queue_ok)
qed

text \<open>
  C15: \<open>serviceEvents\<close> terminates and calls the right handlers. On a well-formed queue
  whose due events keep the assertion of \<open>serviceOne\<close>, with handlers that return and
  leave the pending events and the flags of the events alone, it calls the handlers of
  exactly the events that are due at or before the given tick and not squashed, each
  once, in queue order and with the current tick set to the event's own; it keeps the
  later events and ends at the given tick.
\<close>

theorem serviceEvents_due:
  assumes "queue_ok s"
    and "\<forall>x \<in> set (pending s). fst (fst x) \<le> w \<longrightarrow> exit_ok s (snd x)"
    and "queue_free log" and "handlers_log process log g"
  shows "\<exists>s'. serviceEvents process w s = Some s' \<and> now s' = w \<and>
    pending s' = dropWhile (\<lambda>x. fst (fst x) \<le> w) (pending s) \<and>
    log s' = fold g (calls_of s (takeWhile (\<lambda>x. fst (fst x) \<le> w) (pending s))) (log s)"
  using assms by (rule serviceEvents_ok)

text \<open>A handler that notes its event in the list of asynchronous insertions.\<close>

definition noting :: "evptr \<Rightarrow> event_queue \<Rightarrow> event_queue option" where
  "noting p s = Some (s\<lparr>async_queue := async_queue s @ [p]\<rparr>)"

lemma noting_ok: "queue_free async_queue" "handlers_log noting async_queue (\<lambda>(p, t) ps. ps @ [p])"
proof -
  have p: "pending (s\<lparr>async_queue := x\<rparr>) = pending s" for s x
    by (simp add: pending_def dump_def cong: option.case_cong)
  then have "queue_ok (s\<lparr>async_queue := x\<rparr>) = queue_ok s" for s x
    by (simp add: queue_ok_def rep_def)
  with p show "handlers_log noting async_queue (\<lambda>(p, t) ps. ps @ [p])"
    by (simp add: handlers_log_def noting_def kept_flags_def fun_eq_iff)
qed (simp add: queue_free_def)

theorem serviceEvents_due_witness:
  "\<exists>s s'. exec eq_act [Schedule 0 (500, 0), Schedule 1 (250, 0), Schedule 2 (100, 0)]
      (mkEventQueue 7 three_events) = Some s \<and>
    serviceEvents noting 300 s = Some s' \<and> now s' = 300 \<and> pending s' = [((500, 0), 0)] \<and>
    async_queue s' = [2, 1]"
proof -
  let ?as = "[Schedule 0 (500, 0), Schedule 1 (250, 0), Schedule 2 (100, 0)]"
  have "admissible eq_guard eq_act ?as (mkEventQueue 7 three_events)" by code_simp
  then obtain s where s: "exec eq_act ?as (mkEventQueue 7 three_events) = Some s" "serial_ok s"
    "pending s = [((100, 0), 2), ((250, 0), 1), ((500, 0), 0)]"
    using eqs.exec_refines [OF new_queue_ok(1), of ?as 7 three_events]
    by (auto simp: new_queue_ok less_prod_def)
  have "map_option (\<lambda>s. (map (\<lambda>p. (exit_ok s p, squashed_at s p)) [1, 2], async_queue s))
      (exec eq_act ?as (mkEventQueue 7 three_events)) =
    Some ([(True, False), (True, False)], [])"
    by code_simp
  with s show ?thesis
    using serviceEvents_due [OF _ _ noting_ok, of s 300] by (auto simp: serial_ok_def calls_of_def)
qed

text \<open>
  C16: \<open>debugVerify\<close> returns on a well-formed queue and accepts it, except when
  the first event is due at tick 0 with a negative priority: the loop starts from
  priority 0 and reports that event as inverted.
\<close>

theorem debugVerify_exact:
  assumes "queue_ok s"
  shows "debugVerify s = Some (pending s = [] \<or> (0, 0) \<le> fst (hd (pending s)))"
proof -
  obtain bs where bs: "segment (events s) (head s) bs None" "sorted_wrt (<) (map fst bs)"
    "distinct (members bs)" "pending s = flat bs"
    using assms by (auto elim: queue_okE)
  have hd: "pending s = [] \<longleftrightarrow> bs = []" "bs \<noteq> [] \<Longrightarrow> fst (hd (pending s)) = fst (hd bs)"
    using bs(4) by (cases bs rule: members.cases; simp)+
  show ?thesis
  proof (cases "bs = [] \<or> (0, 0) \<le> fst (hd bs)")
    case True
    then show ?thesis
      using verifyBins_segment [OF bs(1-3), of "[]" 0 0] hd by (auto simp: debugVerify_def)
  next
    case False
    then obtain k x xs cs where b: "bs = (k, x, xs) # cs" and k: "\<not> (0, 0) \<le> k"
      by (cases bs rule: members.cases) auto
    from bs(1) b obtain e where e: "head s = Some x" "events s x = Some e" "ekey e = k" by auto
    from k e(3) have "verifyOne (0, 0, []) x e = Inl ()"
      by (auto simp: verifyOne_def less_eq_prod_def ekey_def word_gt_0)
    with e have "verifyBin (events s) (head s) (0, 0, []) = Some (Inl ())"
      by (subst verifyBin.simps) simp
    with e have "debugVerify s = Some False"
      unfolding debugVerify_def by (subst verifyBins.simps) simp
    then show ?thesis using False hd by auto
  qed
qed

theorem debugVerify_exact_witness:
  "\<exists>s. schedule 0 0 False (mkEventQueue 7 (\<lambda>p. if p = 0 then newEvent (-1) 0 else None)) = Some s \<and>
    queue_ok s \<and> debugVerify s = Some False"
proof -
  let ?s = "mkEventQueue 7 (\<lambda>p. if p = 0 then newEvent (-1) 0 else None)"
  have "admissible eq_guard eq_act [Schedule 0 (0, -1)] ?s" by code_simp
  then obtain s where s: "exec eq_act [Schedule 0 (0, -1)] ?s = Some s" "serial_ok s"
    "pending s = [((0, -1), 0)]"
    using eqs.exec_refines [OF new_queue_ok(1), of "[Schedule 0 (0, -1)]"] by (auto simp: new_queue_ok)
  then show ?thesis
    using debugVerify_exact [of s]
    by (auto simp: serial_ok_def less_eq_prod_def split: bind_splits)
qed

text \<open>
  C17: A checkpoint of an event, restored into a new event, gives back its tick,
  its priority and whether it was squashed. An event that was scheduled and not squashed
  comes back unscheduled, so that \<open>checkpointReschedule\<close>, which inserts the events that
  are marked as scheduled, leaves the queue as it is; only squashed events keep the mark.
\<close>

theorem checkpoint_roundtrip:
  assumes "initialized e" and "initialized f" and "\<not> scheduled f"
  shows "\<exists>g. unserialize (serialize e) f = Some g \<and> ekey g = ekey e \<and> initialized g \<and>
    squashed g = squashed e \<and> scheduled g = (scheduled e \<and> squashed e) \<and>
    (\<forall>s p. events s p = Some g \<longrightarrow> \<not> squashed e \<longrightarrow> checkpointReschedule p s = Some s)"
proof -
  let ?live = "scheduled e \<and> \<not> squashed e"
  let ?g = "f\<lparr>ev_when := ev_when e, priority := priority e,
    eflags := if ?live then clear (Squashed OR Scheduled) (eflags e) else eflags e\<rparr>"
  have "unserialize (serialize e) f = Some ?g"
    using assms serialize_flags [OF assms(1)]
    by (simp add: unserialize_def serialize_def scheduled_def squashed_def initialized_def Let_def)
  moreover have "\<not> isSet (clear (Squashed OR Scheduled) h) Scheduled"
    "\<not> isSet (clear (Squashed OR Scheduled) h) Squashed" for h
    using isSet_clear_same [of "Squashed OR Scheduled" h] by (auto simp: isSet_or)
  moreover have "clear (Squashed OR Scheduled) h AND InitMask = h AND InitMask" for h
    by (simp add: Squashed_def Scheduled_def InitMask_def clear_def and.assoc)
  ultimately show ?thesis
    using assms(1) by (intro exI [of _ ?g])
      (auto simp: ekey_def initialized_def squashed_def scheduled_def checkpointReschedule_def)
qed

theorem checkpoint_roundtrip_witness:
  "\<exists>e f g. newEvent 0 0 = Some f \<and> e = f\<lparr>ev_when := 500, eflags := set_flags Scheduled (eflags f)\<rparr> \<and>
    unserialize (serialize e) f = Some g \<and> ekey g = (500, 0) \<and> scheduled e \<and> \<not> scheduled g"
proof -
  obtain f where f: "newEvent 0 0 = Some f" "initialized f" "\<not> scheduled f" "priority f = 0"
    "\<not> squashed f"
    by (auto simp: newEvent_def noneSet_def initialized_def scheduled_def squashed_def isSet_def
        Initialized_def InitMask_def Scheduled_def Squashed_def)
  let ?e = "f\<lparr>ev_when := 500, eflags := set_flags Scheduled (eflags f)\<rparr>"
  have "isSet (set_flags Scheduled (eflags f)) Squashed = isSet (eflags f) Squashed"
    by (rule isSet_set_other) (simp add: Squashed_def Scheduled_def)
  then have e: "initialized ?e" "\<not> squashed ?e" "scheduled ?e"
    using f(2,5) by (simp_all add: initialized_def squashed_def scheduled_def)
  from checkpoint_roundtrip [OF e(1) f(2,3)] show ?thesis using f e by (auto simp: ekey_def)
qed

end
