(* ===== verification/ClockDomain.thy ===== *)
theory ClockDomain
  imports Complex_Main Clocked
begin

text \<open>
  Clock and voltage domains: \<open>sim/clock_domain.hh\<close>, \<open>sim/clock_domain.cc\<close>,
  \<open>sim/voltage_domain.hh\<close> and \<open>sim/voltage_domain.cc\<close>. A source clock domain has
  one clock period for each performance level; derived domains divide the clock of
  their parent, which makes a tree; the clocked objects of a domain are its members. A
  voltage domain holds its source domains, as \<open>registerSrcClockDom\<close> makes it, and a
  source domain is named by its position there. Voltages of type \<open>double\<close> are rational
  numbers. The current tick is an argument. The hook \<open>clockPeriodUpdated\<close> does nothing
  by default and is not modelled.
\<close>

section \<open>Derived clock domains\<close>

type_synonym members = "(nat \<times> clocked) list"

datatype derived = Derived
  (clockDivider: u64) (derivedPeriod: Tick) (derivedMembers: members) (derivedChildren: "derived list")

text \<open>\<open>Clocked::updateClockPeriod\<close> for every member, with the period that still holds.\<close>

definition updateMembers :: "Tick \<Rightarrow> Tick \<Rightarrow> members \<Rightarrow> members" where
  "updateMembers curTick period ms = map (\<lambda>(i, c). (i, update curTick period c)) ms"

fun updateClockPeriod :: "Tick \<Rightarrow> Tick \<Rightarrow> derived \<Rightarrow> derived" where
  "updateClockPeriod curTick parentPeriod (Derived d p ms cs) =
     Derived d (parentPeriod * d) (updateMembers curTick p ms)
       (map (updateClockPeriod curTick (parentPeriod * d)) cs)"

text \<open>The constructor: the period is that of the parent times the divider.\<close>

definition mkDerived :: "Tick \<Rightarrow> Tick \<Rightarrow> u64 \<Rightarrow> derived option" where
  "mkDerived curTick parentPeriod divider = do {
     check (\<not> divider < 1);
     Some (updateClockPeriod curTick parentPeriod (Derived divider 0 [] [])) }"

definition registerMember :: "nat \<Rightarrow> clocked \<Rightarrow> members \<Rightarrow> members option" where
  "registerMember i c ms = do { check (i \<notin> fst ` set ms); Some (ms @ [(i, c)]) }"

definition registerWithDerived :: "nat \<Rightarrow> clocked \<Rightarrow> derived \<Rightarrow> derived option" where
  "registerWithDerived i c d = do {
     ms \<leftarrow> registerMember i c (derivedMembers d);
     Some (Derived (clockDivider d) (derivedPeriod d) ms (derivedChildren d)) }"

definition addToDerived :: "derived \<Rightarrow> derived \<Rightarrow> derived" where
  "addToDerived c d = Derived (clockDivider d) (derivedPeriod d) (derivedMembers d)
     (derivedChildren d @ [c])"

section \<open>Source clock domains and voltage domains\<close>

record src_domain =
  srcPeriod :: Tick
  srcMembers :: members
  srcChildren :: "derived list"
  freqOpPoints :: "Tick list"
  domainID :: u32
  srcPerfLevel :: u32
  voltageDomain :: nat

record voltage_domain =
  vself :: nat
  voltageOpPoints :: "rat list"
  vPerfLevel :: u32
  srcClockChildren :: "src_domain list"

definition mkVoltageDomain :: "nat \<Rightarrow> rat list \<Rightarrow> voltage_domain option" where
  "mkVoltageDomain this vs = do {
     check (vs \<noteq> []);
     check (sorted (rev vs));
     Some \<lparr>vself = this, voltageOpPoints = vs, vPerfLevel = 0, srcClockChildren = []\<rparr> }"

definition numVoltages :: "voltage_domain \<Rightarrow> u32" where
  "numVoltages v = of_nat (length (voltageOpPoints v))"

text \<open>The current voltage, and that of a performance level.\<close>

definition voltage :: "voltage_domain \<Rightarrow> rat option" where
  "voltage v = do {
     check (unat (vPerfLevel v) < length (voltageOpPoints v));
     Some (voltageOpPoints v ! unat (vPerfLevel v)) }"

definition voltageAt :: "u32 \<Rightarrow> voltage_domain \<Rightarrow> rat option" where
  "voltageAt pl v = do {
     check (pl < numVoltages v);
     check (unat pl < length (voltageOpPoints v));
     Some (voltageOpPoints v ! unat pl) }"

definition vd_perfLevel :: "u32 \<Rightarrow> voltage_domain \<Rightarrow> voltage_domain option" where
  "vd_perfLevel pl v = do {
     check (unat pl < length (voltageOpPoints v));
     if pl = vPerfLevel v then Some v else Some (v\<lparr>vPerfLevel := pl\<rparr>) }"

text \<open>The loop of \<open>sanitiseVoltages\<close>: the numerically lowest requested level.\<close>

fun requestedLevel :: "nat \<Rightarrow> src_domain list \<Rightarrow> u32 \<Rightarrow> u32 option" where
  "requestedLevel this [] perf_max = Some perf_max"
| "requestedLevel this (d # ds) perf_max = do {
     check (voltageDomain d = this);
     requestedLevel this ds (if srcPerfLevel d < perf_max then srcPerfLevel d else perf_max) }"

definition sanitiseVoltages :: "voltage_domain \<Rightarrow> (bool \<times> voltage_domain) option" where
  "sanitiseVoltages v =
     (if numVoltages v = 1 then Some (False, v)
      else do {
        perf_max \<leftarrow> requestedLevel (vself v) (srcClockChildren v) (- 1);
        if perf_max \<noteq> vPerfLevel v then do {
          v \<leftarrow> vd_perfLevel perf_max v;
          Some (True, v) }
        else Some (False, v) })"

definition vd_startup :: "voltage_domain \<Rightarrow> voltage_domain option" where
  "vd_startup v = map_option snd (sanitiseVoltages v)"

definition vd_serialize :: "voltage_domain \<Rightarrow> u32" where
  "vd_serialize v = vPerfLevel v"

definition vd_unserialize :: "u32 \<Rightarrow> voltage_domain \<Rightarrow> voltage_domain option" where
  "vd_unserialize cp v = vd_perfLevel cp (v\<lparr>vPerfLevel := cp\<rparr>)"

definition registerSrcClockDom :: "src_domain \<Rightarrow> voltage_domain \<Rightarrow> voltage_domain option" where
  "registerSrcClockDom d v = do {
     check (voltageDomain d = vself v);
     Some (v\<lparr>srcClockChildren := srcClockChildren v @ [d]\<rparr>) }"

text \<open>\<open>SrcClockDomain::clockPeriod\<close>.\<close>

definition setClockPeriod :: "Tick \<Rightarrow> Tick \<Rightarrow> src_domain \<Rightarrow> src_domain option" where
  "setClockPeriod curTick clock_period d =
     (if clock_period = 0 then None
      else
        let d = d\<lparr>srcMembers := updateMembers curTick (srcPeriod d) (srcMembers d)\<rparr>;
            d = d\<lparr>srcPeriod := clock_period\<rparr> in
        Some (d\<lparr>srcChildren := map (updateClockPeriod curTick clock_period) (srcChildren d)\<rparr>))"

definition mkSrcClockDomain ::
    "Tick \<Rightarrow> Tick list \<Rightarrow> u32 \<Rightarrow> u32 \<Rightarrow> voltage_domain option \<Rightarrow> voltage_domain option" where
  "mkSrcClockDomain curTick clock ident init_perf_level vdom = do {
     check (clock \<noteq> []);
     v \<leftarrow> vdom;
     check (\<not> (1 < numVoltages v \<and> unat (numVoltages v) \<noteq> length clock));
     check (sorted clock);
     check (unat init_perf_level < length clock);
     d \<leftarrow> setClockPeriod curTick (clock ! unat init_perf_level)
       \<lparr>srcPeriod = 0, srcMembers = [], srcChildren = [], freqOpPoints = clock,
        domainID = ident, srcPerfLevel = init_perf_level, voltageDomain = vself v\<rparr>;
     registerSrcClockDom d v }"

definition validPerfLevel :: "u32 \<Rightarrow> src_domain \<Rightarrow> bool" where
  "validPerfLevel pl d = (pl < of_nat (length (freqOpPoints d)))"

definition clkPeriodAtPerfLevel :: "src_domain \<Rightarrow> Tick option" where
  "clkPeriodAtPerfLevel d = do {
     check (unat (srcPerfLevel d) < length (freqOpPoints d));
     Some (freqOpPoints d ! unat (srcPerfLevel d)) }"

definition setSrc :: "nat \<Rightarrow> src_domain \<Rightarrow> voltage_domain \<Rightarrow> voltage_domain" where
  "setSrc i d v = v\<lparr>srcClockChildren := (srcClockChildren v)[i := d]\<rparr>"

definition signalPerfLevelUpdate :: "Tick \<Rightarrow> nat \<Rightarrow> voltage_domain \<Rightarrow> voltage_domain option" where
  "signalPerfLevelUpdate curTick i v = do {
     (changed, v) \<leftarrow> sanitiseVoltages v;
     check (i < length (srcClockChildren v));
     let d = srcClockChildren v ! i;
     period \<leftarrow> clkPeriodAtPerfLevel d;
     d \<leftarrow> setClockPeriod curTick period d;
     Some (setSrc i d v) }"

definition src_perfLevel :: "Tick \<Rightarrow> nat \<Rightarrow> u32 \<Rightarrow> voltage_domain \<Rightarrow> voltage_domain option" where
  "src_perfLevel curTick i pl v = do {
     check (i < length (srcClockChildren v));
     let d = srcClockChildren v ! i;
     check (validPerfLevel pl d);
     if pl = srcPerfLevel d then Some v
     else signalPerfLevelUpdate curTick i (setSrc i (d\<lparr>srcPerfLevel := pl\<rparr>) v) }"

definition src_startup :: "Tick \<Rightarrow> nat \<Rightarrow> voltage_domain \<Rightarrow> voltage_domain option" where
  "src_startup curTick i v = signalPerfLevelUpdate curTick i v"

definition src_serialize :: "src_domain \<Rightarrow> u32" where
  "src_serialize d = srcPerfLevel d"

definition src_unserialize :: "u32 \<Rightarrow> src_domain \<Rightarrow> src_domain" where
  "src_unserialize cp d = d\<lparr>srcPerfLevel := cp\<rparr>"

section \<open>Derived clocks\<close>

text \<open>The period of every derived domain is the period of its parent times its divider.\<close>

fun derived_ok :: "Tick \<Rightarrow> derived \<Rightarrow> bool" where
  "derived_ok parentPeriod (Derived d p ms cs) \<longleftrightarrow>
     1 \<le> d \<and> p = parentPeriod * d \<and> (\<forall>c \<in> set cs. derived_ok p c)"

text \<open>The products stay below \<open>2^64\<close>.\<close>

fun derived_fits :: "nat \<Rightarrow> derived \<Rightarrow> bool" where
  "derived_fits parentPeriod (Derived d p ms cs) \<longleftrightarrow>
     parentPeriod * unat d < 2 ^ 64 \<and> (\<forall>c \<in> set cs. derived_fits (parentPeriod * unat d) c)"

fun derived_periods :: "derived \<Rightarrow> Tick list" where
  "derived_periods (Derived d p ms cs) = p # concat (map derived_periods cs)"

text \<open>The dividers of a tree do not change.\<close>

fun dividers_ok :: "derived \<Rightarrow> bool" where
  "dividers_ok (Derived d p ms cs) \<longleftrightarrow> 1 \<le> d \<and> (\<forall>c \<in> set cs. dividers_ok c)"

lemma updateClockPeriod_ok:
  "dividers_ok c \<Longrightarrow> derived_ok pp (updateClockPeriod now pp c) \<and> dividers_ok (updateClockPeriod now pp c)"
  by (induction now pp c rule: updateClockPeriod.induct) auto

lemma derived_ok_dividers: "derived_ok pp c \<Longrightarrow> dividers_ok c"
  by (induction pp c rule: derived_ok.induct) auto

lemma derived_fits_update: "derived_fits n (updateClockPeriod now pp c) = derived_fits n c"
  by (induction now pp c arbitrary: n rule: updateClockPeriod.induct) auto

lemma derived_nonzero:
  "derived_ok pp c \<Longrightarrow> derived_fits (unat pp) c \<Longrightarrow> 0 < pp \<Longrightarrow> p \<in> set (derived_periods c) \<Longrightarrow> 0 < p"
proof (induction pp c rule: derived_ok.induct)
  case (1 pp d q ms cs)
  have u: "unat (pp * d) = unat pp * unat d" using 1 by (simp add: word_nat)
  have "0 < unat pp * unat d" using "1.prems"(1,3) by (simp add: word_le_nat_alt word_less_nat_alt)
  then have "0 < q" using u 1 by (simp add: word_less_nat_alt)
  with u 1 show ?case by auto
qed

section \<open>Domains\<close>

definition src_ok :: "nat \<Rightarrow> src_domain \<Rightarrow> bool" where
  "src_ok this d \<longleftrightarrow> voltageDomain d = this \<and> sorted (freqOpPoints d) \<and>
     length (freqOpPoints d) < 2 ^ 32 \<and> unat (srcPerfLevel d) < length (freqOpPoints d) \<and>
     srcPeriod d = freqOpPoints d ! unat (srcPerfLevel d) \<and> 0 < srcPeriod d \<and>
     (\<forall>c \<in> set (srcChildren d). derived_ok (srcPeriod d) c)"

definition vd_ok :: "voltage_domain \<Rightarrow> bool" where
  "vd_ok v \<longleftrightarrow> voltageOpPoints v \<noteq> [] \<and> length (voltageOpPoints v) < 2 ^ 32 \<and>
     sorted (rev (voltageOpPoints v)) \<and>
     (\<forall>d \<in> set (srcClockChildren v). src_ok (vself v) d \<and>
       (length (voltageOpPoints v) = 1 \<or> length (voltageOpPoints v) = length (freqOpPoints d)))"

text \<open>The voltage follows the fastest source domain.\<close>

definition synced :: "voltage_domain \<Rightarrow> bool" where
  "synced v \<longleftrightarrow> vPerfLevel v =
     (if length (voltageOpPoints v) = 1 then 0 else Min (srcPerfLevel ` set (srcClockChildren v)))"

lemma requestedLevel_Min:
  "\<forall>d \<in> set ds. voltageDomain d = this \<Longrightarrow>
    requestedLevel this ds m = Some (Min (insert m (srcPerfLevel ` set ds)))"
proof (induction ds arbitrary: m)
  case (Cons d ds)
  have "Min (insert m (srcPerfLevel ` set (d # ds))) =
      Min (insert (min (srcPerfLevel d) m) (srcPerfLevel ` set ds))"
    by (cases "ds = []") (simp_all add: min.assoc min.commute min.left_commute)
  moreover have "(if srcPerfLevel d < m then srcPerfLevel d else m) = min (srcPerfLevel d) m"
    by (auto simp: min_def)
  ultimately show ?case using Cons by simp
qed simp

lemma unat_numVoltages: "vd_ok v \<Longrightarrow> unat (numVoltages v) = length (voltageOpPoints v)"
  by (simp add: vd_ok_def numVoltages_def unsigned_of_nat take_bit_nat_eq_self)

lemma sanitiseVoltages_eq:
  assumes "voltageOpPoints v \<noteq> []" "length (voltageOpPoints v) < 2 ^ 32"
    and ds: "srcClockChildren v \<noteq> []" "\<forall>d \<in> set (srcClockChildren v). voltageDomain d = vself v \<and>
      (length (voltageOpPoints v) = 1 \<or> unat (srcPerfLevel d) < length (voltageOpPoints v))"
  shows "map_option snd (sanitiseVoltages v) =
    Some (if length (voltageOpPoints v) = 1 then v
      else v\<lparr>vPerfLevel := Min (srcPerfLevel ` set (srcClockChildren v))\<rparr>)"
proof -
  let ?L = "srcPerfLevel ` set (srcClockChildren v)"
  have "unat (numVoltages v) = length (voltageOpPoints v)"
    using assms(2) by (simp add: numVoltages_def unsigned_of_nat take_bit_nat_eq_self)
  then have n: "numVoltages v = 1 \<longleftrightarrow> length (voltageOpPoints v) = 1"
    by (metis unsigned_1 unsigned_word_eqI)
  have min: "Min (insert (- 1) ?L) = Min ?L"
    using ds(1) by (subst Min_insert) (auto intro: min.absorb2 word_order.extremum)
  have "Min ?L \<in> ?L" by (rule Min_in) (use ds(1) in auto)
  then obtain d where d: "d \<in> set (srcClockChildren v)" "Min ?L = srcPerfLevel d" by auto
  show ?thesis
  proof (cases "length (voltageOpPoints v) = 1")
    case False
    then have "unat (Min ?L) < length (voltageOpPoints v)" using d ds(2) by auto
    with False n min ds(2) show ?thesis
      by (auto simp: sanitiseVoltages_def requestedLevel_Min vd_perfLevel_def)
  qed (simp add: sanitiseVoltages_def n)
qed

lemma signal_ok:
  assumes v: "voltageOpPoints v \<noteq> []" "length (voltageOpPoints v) < 2 ^ 32"
    "sorted (rev (voltageOpPoints v))"
    and i: "i < length (srcClockChildren v)" "srcClockChildren v ! i = d"
    and ds: "\<forall>j < length (srcClockChildren v). j \<noteq> i \<longrightarrow> src_ok (vself v) (srcClockChildren v ! j)"
      "\<forall>e \<in> set (srcClockChildren v). length (voltageOpPoints v) = 1 \<or>
        length (voltageOpPoints v) = length (freqOpPoints e)"
    and d: "voltageDomain d = vself v" "sorted (freqOpPoints d)" "length (freqOpPoints d) < 2 ^ 32"
      "unat (srcPerfLevel d) < length (freqOpPoints d)"
      "0 < freqOpPoints d ! unat (srcPerfLevel d)" "\<forall>c \<in> set (srcChildren d). dividers_ok c"
  shows "\<exists>v' d'. signalPerfLevelUpdate now i v = Some v' \<and> vd_ok v' \<and>
    (length (voltageOpPoints v) = 1 \<longrightarrow> vPerfLevel v' = vPerfLevel v) \<and>
    (length (voltageOpPoints v) \<noteq> 1 \<longrightarrow> vPerfLevel v' = Min (srcPerfLevel ` set (srcClockChildren v'))) \<and>
    srcClockChildren v' = (srcClockChildren v)[i := d'] \<and>
    srcPeriod d' = freqOpPoints d ! unat (srcPerfLevel d) \<and> srcPerfLevel d' = srcPerfLevel d \<and>
    freqOpPoints d' = freqOpPoints d \<and> voltageOpPoints v' = voltageOpPoints v \<and>
    srcMembers d' = updateMembers now (srcPeriod d) (srcMembers d)"
proof -
  let ?ds = "srcClockChildren v"
  let ?p = "freqOpPoints d ! unat (srcPerfLevel d)"
  let ?d = "d\<lparr>srcMembers := updateMembers now (srcPeriod d) (srcMembers d), srcPeriod := ?p,
    srcChildren := map (updateClockPeriod now ?p) (srcChildren d)\<rparr>"
  let ?v = "if length (voltageOpPoints v) = 1 then v else v\<lparr>vPerfLevel := Min (srcPerfLevel ` set ?ds)\<rparr>"
  have all: "voltageDomain e = vself v \<and> unat (srcPerfLevel e) < length (freqOpPoints e)"
    if e: "e \<in> set ?ds" for e
  proof -
    obtain j where "j < length ?ds" "e = ?ds ! j" using e by (auto simp: in_set_conv_nth)
    then show ?thesis using ds(1) d i by (cases "j = i") (auto simp: src_ok_def)
  qed
  have "map_option snd (sanitiseVoltages v) = Some ?v"
    by (rule sanitiseVoltages_eq) (use v i all ds(2) in auto)
  then obtain c where san: "sanitiseVoltages v = Some (c, ?v)" by auto
  have "src_ok (vself v) ?d" using d updateClockPeriod_ok by (auto simp: src_ok_def)
  then have "\<forall>j < length ?ds. src_ok (vself v) (?ds[i := ?d] ! j)"
    using ds(1) i(1) by (simp add: nth_list_update)
  then have "src_ok (vself v) e" if "e \<in> set (?ds[i := ?d])" for e
    using that by (auto simp: in_set_conv_nth)
  moreover have "length (voltageOpPoints v) = 1 \<or> length (voltageOpPoints v) = length (freqOpPoints e)"
    if "e \<in> set (?ds[i := ?d])" for e
    using that ds(2) i by (auto dest!: set_update_subset_insert [THEN subsetD])
  ultimately have "vd_ok (setSrc i ?d ?v)" using v by (auto simp: vd_ok_def setSrc_def)
  moreover have "map srcPerfLevel (?ds[i := ?d]) = map srcPerfLevel ?ds"
    using i by (simp add: map_update list_update_same_conv)
  then have "srcPerfLevel ` set (?ds[i := ?d]) = srcPerfLevel ` set ?ds" by (metis image_set)
  moreover have "signalPerfLevelUpdate now i v = Some (setSrc i ?d ?v)"
    using i d(4,5) by (simp add: signalPerfLevelUpdate_def san setClockPeriod_def clkPeriodAtPerfLevel_def)
  ultimately show ?thesis
    by (intro exI [of _ "setSrc i ?d ?v"] exI [of _ ?d]) (auto simp: setSrc_def)
qed

lemma setSrc_sel [simp]:
  "voltageOpPoints (setSrc i d v) = voltageOpPoints v" "vself (setSrc i d v) = vself v"
  "vPerfLevel (setSrc i d v) = vPerfLevel v"
  "srcClockChildren (setSrc i d v) = (srcClockChildren v)[i := d]"
  by (simp_all add: setSrc_def)

text \<open>Every source domain has the voltage of its level.\<close>

lemma voltage_enough:
  assumes "vd_ok v" and "synced v" and "srcClockChildren v \<noteq> []"
  shows "\<exists>V. voltage v = Some V \<and> (\<forall>e \<in> set (srcClockChildren v). 1 < length (voltageOpPoints v) \<longrightarrow>
    (\<exists>V'. voltageAt (srcPerfLevel e) v = Some V' \<and> V' \<le> V))"
proof (cases "length (voltageOpPoints v) = 1")
  case True
  then show ?thesis using assms(2) by (auto simp: synced_def voltage_def)
next
  case False
  let ?L = "srcPerfLevel ` set (srcClockChildren v)"
  have lt: "unat (srcPerfLevel e) < length (voltageOpPoints v)" if "e \<in> set (srcClockChildren v)" for e
    using assms(1) False that by (auto simp: vd_ok_def src_ok_def)
  have "Min ?L \<in> ?L" by (rule Min_in) (use assms(3) in auto)
  then have "unat (Min ?L) < length (voltageOpPoints v)" using lt by auto
  moreover have "voltageOpPoints v ! unat (srcPerfLevel e) \<le> voltageOpPoints v ! unat (Min ?L)"
    if "e \<in> set (srcClockChildren v)" for e
    using assms(1) lt [OF that] that
    by (intro sorted_rev_nth_mono) (auto simp: vd_ok_def simp flip: word_le_nat_alt)
  ultimately show ?thesis
    using assms(2) False lt unat_numVoltages [OF assms(1)]
    by (auto simp: voltage_def voltageAt_def synced_def word_less_nat_alt)
qed

text \<open>The constructors make well-formed domains.\<close>

lemma mkVoltageDomain_ok:
  "mkVoltageDomain this vs = Some v \<Longrightarrow> length vs < 2 ^ 32 \<Longrightarrow> vd_ok v"
  by (auto simp: mkVoltageDomain_def abort_simps vd_ok_def)

lemma mkSrcClockDomain_ok:
  assumes "vd_ok v" and "length clock < 2 ^ 32"
    and "mkSrcClockDomain now clock ident pl (Some v) = Some v'"
  shows "vd_ok v'"
proof -
  let ?n = "length (voltageOpPoints v)"
  have n: "unat (numVoltages v) = ?n" by (rule unat_numVoltages [OF assms(1)])
  have mk: "\<not> (1 < numVoltages v \<and> unat (numVoltages v) \<noteq> length clock)" "sorted clock"
    "unat pl < length clock" "clock ! unat pl \<noteq> 0"
    "v' = v\<lparr>srcClockChildren := srcClockChildren v @
      [\<lparr>srcPeriod = clock ! unat pl, srcMembers = [], srcChildren = [], freqOpPoints = clock,
        domainID = ident, srcPerfLevel = pl, voltageDomain = vself v\<rparr>]\<rparr>"
    using assms(3)
    by (auto simp: mkSrcClockDomain_def abort_simps setClockPeriod_def updateMembers_def
        registerSrcClockDom_def split: if_splits)
  have "?n = 1 \<or> ?n = length clock"
    using mk(1) n assms(1) by (cases "voltageOpPoints v") (auto simp: vd_ok_def word_less_nat_alt)
  then show ?thesis
    using assms(1,2) mk by (auto simp: vd_ok_def src_ok_def word_gt_0)
qed

lemma perfLevel_step:
  assumes "vd_ok v" and "synced v" and "i < length (srcClockChildren v)"
    and "d = srcClockChildren v ! i"
    and "unat pl < length (freqOpPoints d)" and "0 < freqOpPoints d ! unat pl"
  shows "\<exists>v'. src_perfLevel now i pl v = Some v' \<and> vd_ok v' \<and> synced v' \<and> i < length (srcClockChildren v') \<and>
    voltageOpPoints v' = voltageOpPoints v \<and> srcPerfLevel (srcClockChildren v' ! i) = pl \<and>
    freqOpPoints (srcClockChildren v' ! i) = freqOpPoints d \<and>
    (\<forall>j. j \<noteq> i \<longrightarrow> srcClockChildren v' ! j = srcClockChildren v ! j)"
proof -
  let ?ds = "srcClockChildren v"
  have vd: "voltageOpPoints v \<noteq> []" "length (voltageOpPoints v) < 2 ^ 32" "sorted (rev (voltageOpPoints v))"
    and ok: "\<And>e. e \<in> set ?ds \<Longrightarrow> src_ok (vself v) e \<and>
       (length (voltageOpPoints v) = 1 \<or> length (voltageOpPoints v) = length (freqOpPoints e))"
    using assms(1) by (auto simp: vd_ok_def)
  have d: "d \<in> set ?ds" "src_ok (vself v) d" using assms(3,4) ok by auto
  have lt: "validPerfLevel pl d"
    using assms(5) d(2) by (simp add: validPerfLevel_def src_ok_def word_less_nat_alt
        unsigned_of_nat take_bit_nat_eq_self)
  show ?thesis
  proof (cases "pl = srcPerfLevel d")
    case True
    then show ?thesis
      using assms(1-4) lt by (intro exI [of _ v]) (auto simp: src_perfLevel_def)
  next
    case False
    let ?d = "d\<lparr>srcPerfLevel := pl\<rparr>"
    let ?w = "setSrc i ?d v"
    have nth: "srcClockChildren ?w ! i = ?d" "i < length (srcClockChildren ?w)" using assms(3) by simp_all
    have others: "\<forall>j < length (srcClockChildren ?w). j \<noteq> i \<longrightarrow>
        src_ok (vself ?w) (srcClockChildren ?w ! j)"
      using ok by simp
    have len: "\<forall>e \<in> set (srcClockChildren ?w). length (voltageOpPoints ?w) = 1 \<or>
        length (voltageOpPoints ?w) = length (freqOpPoints e)"
    proof
      fix e
      assume "e \<in> set (srcClockChildren ?w)"
      then have "e \<in> insert ?d (set ?ds)" using set_update_subset_insert by fastforce
      then show "length (voltageOpPoints ?w) = 1 \<or> length (voltageOpPoints ?w) = length (freqOpPoints e)"
        using ok [OF d(1)] ok [of e] by auto
    qed
    have d': "voltageDomain ?d = vself ?w" "sorted (freqOpPoints ?d)" "length (freqOpPoints ?d) < 2 ^ 32"
      "unat (srcPerfLevel ?d) < length (freqOpPoints ?d)"
      "0 < freqOpPoints ?d ! unat (srcPerfLevel ?d)" "\<forall>c \<in> set (srcChildren ?d). dividers_ok c"
      using d(2) derived_ok_dividers assms(5,6) by (auto simp: src_ok_def)
    have vw: "voltageOpPoints ?w \<noteq> []" "length (voltageOpPoints ?w) < 2 ^ 32"
      "sorted (rev (voltageOpPoints ?w))" using vd by simp_all
    obtain v' d' where v': "signalPerfLevelUpdate now i ?w = Some v'" "vd_ok v'"
      "length (voltageOpPoints ?w) = 1 \<longrightarrow> vPerfLevel v' = vPerfLevel ?w"
      "length (voltageOpPoints ?w) \<noteq> 1 \<longrightarrow> vPerfLevel v' = Min (srcPerfLevel ` set (srcClockChildren v'))"
      "srcClockChildren v' = (srcClockChildren ?w)[i := d']" "srcPerfLevel d' = srcPerfLevel ?d"
      "freqOpPoints d' = freqOpPoints ?d" "voltageOpPoints v' = voltageOpPoints ?w"
      using signal_ok [OF vw nth(2,1) others len d', of now] by blast
    have "src_perfLevel now i pl v = Some v'"
      using v'(1) assms(3,4) lt False by (simp add: src_perfLevel_def)
    moreover have "synced v'" using v'(3,4,8) assms(2) by (simp add: synced_def)
    ultimately show ?thesis using v' assms(3) by (intro exI [of _ v']) simp
  qed
qed

section \<open>The theorems\<close>

text \<open>
  C18: Switching a source clock domain to another performance level, in a voltage
  domain that its constructors and earlier switches made, never aborts when the level
  exists and its period is not zero. The domain then runs at the period of the level, all
  derived domains again have the period of their parent times their divider, the other
  source domains are as before, and the voltage is that of the fastest level that any
  source domain requests, so that each one has at least the voltage of its own level.
\<close>

theorem perfLevel_switch:
  assumes "vd_ok v" and "synced v" and "i < length (srcClockChildren v)"
    and "d = srcClockChildren v ! i"
    and "unat pl < length (freqOpPoints d)" and "0 < freqOpPoints d ! unat pl"
  shows "\<exists>v'. src_perfLevel now i pl v = Some v' \<and> vd_ok v' \<and> synced v' \<and>
    srcPeriod (srcClockChildren v' ! i) = freqOpPoints d ! unat pl \<and>
    (\<forall>c \<in> set (srcChildren (srcClockChildren v' ! i)). derived_ok (freqOpPoints d ! unat pl) c) \<and>
    (\<forall>j. j \<noteq> i \<longrightarrow> srcClockChildren v' ! j = srcClockChildren v ! j) \<and>
    (\<exists>V. voltage v' = Some V \<and>
      (\<forall>e \<in> set (srcClockChildren v'). 1 < length (voltageOpPoints v) \<longrightarrow>
        (\<exists>V'. voltageAt (srcPerfLevel e) v' = Some V' \<and> V' \<le> V)))"
proof -
  obtain v' where v': "src_perfLevel now i pl v = Some v'" "vd_ok v'" "synced v'"
    "i < length (srcClockChildren v')" "voltageOpPoints v' = voltageOpPoints v"
    "srcPerfLevel (srcClockChildren v' ! i) = pl"
    "freqOpPoints (srcClockChildren v' ! i) = freqOpPoints d"
    "\<forall>j. j \<noteq> i \<longrightarrow> srcClockChildren v' ! j = srcClockChildren v ! j"
    using perfLevel_step [OF assms] by blast
  have "src_ok (vself v') (srcClockChildren v' ! i)" using v'(2,4) by (auto simp: vd_ok_def)
  moreover have "srcClockChildren v' \<noteq> []" using v'(4) by auto
  ultimately show ?thesis
    using v' voltage_enough [OF v'(2,3)] by (auto simp: src_ok_def)
qed

text \<open>Two source domains with two levels each, one with a derived domain of divider 3.\<close>

definition demo_domains :: "voltage_domain option" where
  "demo_domains = do {
     v \<leftarrow> mkVoltageDomain 9 [1, 4 / 5];
     v \<leftarrow> mkSrcClockDomain 0 [500, 1000] 0 1 (Some v);
     v \<leftarrow> mkSrcClockDomain 0 [250, 800] 1 1 (Some v);
     c \<leftarrow> mkDerived 0 1000 3;
     c \<leftarrow> registerWithDerived 0 clocked_init c;
     let d = srcClockChildren v ! 0;
     vd_startup (setSrc 0 (d\<lparr>srcChildren := srcChildren d @ [c]\<rparr>) v) }"

lemma below_max: "(1::u32) < - 1" "(0::u32) < - 1"
  by (simp_all flip: word_order.not_eq_extremum)

lemmas domain_simps = demo_domains_def mkVoltageDomain_def mkSrcClockDomain_def setClockPeriod_def
  registerSrcClockDom_def mkDerived_def registerWithDerived_def registerMember_def updateMembers_def
  vd_startup_def sanitiseVoltages_def numVoltages_def vd_perfLevel_def vd_ok_def src_ok_def synced_def
  voltage_def src_perfLevel_def signalPerfLevelUpdate_def clkPeriodAtPerfLevel_def validPerfLevel_def
  setSrc_def update_def clocked_init_def divCeil_def

theorem perfLevel_switch_witness:
  "\<exists>v v'. demo_domains = Some v \<and> voltage v = Some (4 / 5) \<and>
    src_perfLevel 100 0 0 v = Some v' \<and> voltage v' = Some 1 \<and>
    srcPeriod (srcClockChildren v' ! 0) = 500 \<and>
    map derived_periods (srcChildren (srcClockChildren v' ! 0)) = [[1500]]"
proof -
  have "case demo_domains of None \<Rightarrow> False | Some v \<Rightarrow> vd_ok v \<and> synced v \<and> voltage v = Some (4 / 5) \<and>
    0 < length (srcClockChildren v) \<and> freqOpPoints (srcClockChildren v ! 0) = [500, 1000] \<and>
    map_option voltage (src_perfLevel 100 0 0 v) = Some (Some 1) \<and>
    map_option (\<lambda>v'. map derived_periods (srcChildren (srcClockChildren v' ! 0)))
      (src_perfLevel 100 0 0 v) = Some [[1500]]"
    by (simp add: domain_simps Let_def below_max)
  then obtain v where v: "demo_domains = Some v" "vd_ok v" "synced v" "voltage v = Some (4 / 5)"
    "0 < length (srcClockChildren v)" "freqOpPoints (srcClockChildren v ! 0) = [500, 1000]"
    "map_option voltage (src_perfLevel 100 0 0 v) = Some (Some 1)"
    "map_option (\<lambda>v'. map derived_periods (srcChildren (srcClockChildren v' ! 0)))
      (src_perfLevel 100 0 0 v) = Some [[1500]]"
    by (auto split: option.splits)
  from perfLevel_switch [OF v(2,3,5) refl, of 0 100] v(6)
  obtain v' where "src_perfLevel 100 0 0 v = Some v'" "srcPeriod (srcClockChildren v' ! 0) = 500"
    by auto
  with v show ?thesis by auto
qed

text \<open>
  C19: The periods of a tree of derived clock domains are never zero: when the
  period of the root is not zero and the products of the dividers stay below \<open>2^64\<close>,
  updating the tree after a change of the root's period, at any tick, gives every domain a
  period that is not zero and consistent with its parent's.
\<close>

theorem derived_clocks_nonzero:
  assumes "dividers_ok c" and "derived_fits (unat pp) c" and "0 < pp"
  shows "derived_ok pp (updateClockPeriod now pp c) \<and>
    (\<forall>p \<in> set (derived_periods (updateClockPeriod now pp c)). 0 < p)"
  using updateClockPeriod_ok [OF assms(1), of pp now] derived_nonzero assms(2,3)
  by (auto simp: derived_fits_update)

theorem derived_clocks_nonzero_witness:
  "let c = Derived 2 0 [(0, clocked_init)] [Derived 3 0 [] []] in
    dividers_ok c \<and> derived_fits 500 c \<and>
    (\<forall>p \<in> set (derived_periods (updateClockPeriod 40 500 c)). 0 < p) \<and>
    derived_periods (updateClockPeriod 40 500 c) = [1000, 3000]"
  using derived_clocks_nonzero [of "Derived 2 0 [(0, clocked_init)] [Derived 3 0 [] []]" 500 40]
  by simp

end
