(* ===== verification/Bitfield.thy ===== *)
theory Bitfield
  imports Flags
begin

text \<open>
  Bit fields: \<open>base/bitfield.hh\<close>. Bit positions of type \<open>unsigned\<close> are 32-bit words,
  so that \<open>first + 1\<close> wraps around; a shift by the width of the shifted type or more is
  undefined in C++ and gives \<open>None\<close>. The compiler's built-in functions
  \<open>__builtin_ctzll\<close>, \<open>__builtin_clzll\<close> and \<open>__builtin_popcountl\<close> are modelled
  by counting bits; the code's own versions are translated and shown equal to them.
\<close>

unbundle bit_operations_syntax

section \<open>The code\<close>

definition mask_n :: "u32 \<Rightarrow> u64" where
  "mask_n nbits = (if 64 \<le> nbits then - 1 else push_bit (unat nbits) 1 - 1)"

definition bits_fl :: "u64 \<Rightarrow> u32 \<Rightarrow> u32 \<Rightarrow> u64 option" where
  "bits_fl val hi lo = do {
     check (lo \<le> hi);
     let nbits = hi - lo + 1;
     check (lo < 64);
     Some (drop_bit (unat lo) val AND mask_n nbits) }"

definition bits_at :: "u64 \<Rightarrow> u32 \<Rightarrow> u64 option" where
  "bits_at val b = bits_fl val b b"

definition mbits :: "u64 \<Rightarrow> u32 \<Rightarrow> u32 \<Rightarrow> u64" where
  "mbits val hi lo = val AND (mask_n (hi + 1) AND NOT (mask_n lo))"

definition mask_fl :: "u32 \<Rightarrow> u32 \<Rightarrow> u64" where
  "mask_fl hi lo = mbits (- 1) hi lo"

definition sext :: "u64 \<Rightarrow> u32 \<Rightarrow> u64 option" where
  "sext val N = do {
     sign_bit \<leftarrow> bits_at val (N - 1);
     Some (if sign_bit \<noteq> 0 then val OR NOT (mask_n N) else val) }"

definition szext :: "u32 \<Rightarrow> u64 \<Rightarrow> u64 option" where
  "szext N val = do {
     sign_bit \<leftarrow> bits_at val (N - 1);
     Some (if sign_bit \<noteq> 0 then val OR NOT (mask_n N) else val AND mask_n N) }"

definition insertBits :: "u64 \<Rightarrow> u32 \<Rightarrow> u32 \<Rightarrow> u64 \<Rightarrow> u64 option" where
  "insertBits val hi lo bit_val = do {
     check (lo \<le> hi);
     let bmask = mask_fl hi lo;
     let val = val AND NOT bmask;
     check (lo < 64);
     Some (val OR (push_bit (unat lo) bit_val AND bmask)) }"

definition insertBit :: "u64 \<Rightarrow> u32 \<Rightarrow> u64 \<Rightarrow> u64 option" where
  "insertBit val b bit_val = insertBits val b b bit_val"

text \<open>The in-place versions assign the result to the reference parameter.\<close>

definition replaceBits :: "u64 \<Rightarrow> u32 \<Rightarrow> u32 \<Rightarrow> u64 \<Rightarrow> u64 option" where
  "replaceBits val hi lo bit_val = insertBits val hi lo bit_val"

definition replaceBit :: "u64 \<Rightarrow> u32 \<Rightarrow> u64 \<Rightarrow> u64 option" where
  "replaceBit val b bit_val = insertBits val b b bit_val"

text \<open>One halving step of \<open>findMsbSet\<close>: the position found so far and the rest.\<close>

definition msbStep :: "u32 \<Rightarrow> u32 \<Rightarrow> nat \<times> u64 \<Rightarrow> (nat \<times> u64) option" where
  "msbStep hi lo s = do {
     b \<leftarrow> bits_fl (snd s) hi lo;
     Some (if b \<noteq> 0 then (fst s + unat lo, drop_bit (unat lo) (snd s)) else s) }"

definition findMsbSet :: "u64 \<Rightarrow> nat option" where
  "findMsbSet val =
     (if val = 0 then Some 0
      else do {
        s \<leftarrow> msbStep 63 32 (0, val);
        s \<leftarrow> msbStep 31 16 s;
        s \<leftarrow> msbStep 15 8 s;
        s \<leftarrow> msbStep 7 4 s;
        s \<leftarrow> msbStep 3 2 s;
        s \<leftarrow> msbStep 1 1 s;
        Some (fst s) })"

definition lsbStep :: "u32 \<Rightarrow> nat \<times> u64 \<Rightarrow> (nat \<times> u64) option" where
  "lsbStep width s = do {
     b \<leftarrow> bits_fl (snd s) (width - 1) 0;
     Some (if b = 0 then (fst s + unat width, drop_bit (unat width) (snd s)) else s) }"

definition findLsbSetFallback :: "u64 \<Rightarrow> nat option" where
  "findLsbSetFallback val =
     (if val = 0 then Some 64
      else do {
        s \<leftarrow> lsbStep 32 (0, val);
        s \<leftarrow> lsbStep 16 s;
        s \<leftarrow> lsbStep 8 s;
        s \<leftarrow> lsbStep 4 s;
        s \<leftarrow> lsbStep 2 s;
        s \<leftarrow> lsbStep 1 s;
        Some (fst s) })"

text \<open>The built-in functions: zeros below the lowest and above the highest set bit, and
  the number of set bits.\<close>

definition builtin_ctz :: "'a::len word \<Rightarrow> nat" where
  "builtin_ctz w = length (takeWhile (\<lambda>i. \<not> bit w i) [0..<LENGTH('a)])"

definition builtin_clz :: "'a::len word \<Rightarrow> nat" where
  "builtin_clz w = length (takeWhile (\<lambda>i. \<not> bit w i) (rev [0..<LENGTH('a)]))"

definition popCount :: "u64 \<Rightarrow> nat" where
  "popCount val = length (filter (bit val) [0..<64])"

definition findLsbSet :: "u64 \<Rightarrow> nat" where
  "findLsbSet val = (if val = 0 then 64 else builtin_ctz val)"

definition ctz32 :: "u32 \<Rightarrow> nat" where
  "ctz32 value = (if value \<noteq> 0 then builtin_ctz value else 32)"

definition ctz64 :: "u64 \<Rightarrow> nat" where
  "ctz64 value = (if value \<noteq> 0 then builtin_ctz value else 64)"

definition clz32 :: "u32 \<Rightarrow> nat" where
  "clz32 value = (if value \<noteq> 0 then builtin_clz value else 32)"

definition clz64 :: "u64 \<Rightarrow> nat" where
  "clz64 value = (if value \<noteq> 0 then builtin_clz value else 64)"

definition alignToPowerOfTwo :: "u64 \<Rightarrow> u64" where
  "alignToPowerOfTwo val =
     (let val = val - 1;
          val = val OR drop_bit 1 val;
          val = val OR drop_bit 2 val;
          val = val OR drop_bit 4 val;
          val = val OR drop_bit 8 val;
          val = val OR drop_bit 16 val;
          val = val OR drop_bit 32 val
      in val + 1)"

section \<open>Bits of the results\<close>

lemma bit_mask_n: "bit (mask_n n) i \<longleftrightarrow> i < 64 \<and> i < unat n"
proof (cases "64 \<le> n")
  case True
  then have "64 \<le> unat n" by (simp add: word_le_nat_alt)
  then show ?thesis using True by (auto simp: mask_n_def)
next
  case False
  then have n: "unat n < 64" by (simp add: word_le_nat_alt)
  have "push_bit (unat n) 1 - 1 = (mask (unat n) :: u64)"
    by (simp add: mask_eq_exp_minus_1 push_bit_eq_mult)
  with False show ?thesis using n by (auto simp: mask_n_def bit_mask_iff)
qed

lemma bit_mask_fl:
  "hi < 64 \<Longrightarrow> bit (mask_fl hi lo) i \<longleftrightarrow> unat lo \<le> i \<and> i \<le> unat hi"
proof -
  assume f: "hi < 64"
  then have "unat (hi + 1) = unat hi + 1"
    by (intro trans [OF unat_add_small]) (auto simp: word_less_nat_alt)
  then show ?thesis
    using f by (auto simp: mask_fl_def mbits_def bit_simps bit_mask_n word_less_nat_alt)
qed

lemma bit_insertBits:
  assumes "lo \<le> hi" and "hi < 64"
  shows "\<exists>r. insertBits val hi lo bit_val = Some r \<and>
    (\<forall>i. bit r i = (if unat lo \<le> i \<and> i \<le> unat hi then bit bit_val (i - unat lo) else bit val i))"
proof -
  have "lo < 64" "unat hi < 64" using assms by (auto simp: word_less_nat_alt word_le_nat_alt)
  then show ?thesis
    using assms by (auto simp: insertBits_def Let_def bit_simps bit_mask_fl dest: bit_imp_le_length)
qed

lemma bits_fl_eq:
  assumes "lo \<le> hi" and "hi < 64"
  shows "bits_fl val hi lo =
    Some (take_bit (unat hi - unat lo + 1) (drop_bit (unat lo) val))"
proof -
  have l: "lo < 64" "unat lo \<le> unat hi" "unat hi < 64"
    using assms by (auto simp: word_less_nat_alt word_le_nat_alt)
  have "unat (hi - lo + 1) = unat hi - unat lo + 1"
    using assms l by (subst unat_add_small) (auto simp: unat_sub)
  then have "drop_bit (unat lo) val AND mask_n (hi - lo + 1) =
      take_bit (unat hi - unat lo + 1) (drop_bit (unat lo) val)"
    by (intro bit_word_eqI) (auto simp: bit_simps bit_mask_n)
  then show ?thesis using assms l by (simp add: bits_fl_def)
qed

text \<open>Below position 0 there is nothing to insert: \<open>first\<close> has wrapped around.\<close>

lemma insertBits_wrapped: "insertBits val (- 1) 0 bit_val = Some val"
  by (simp add: insertBits_def mask_fl_def mbits_def mask_n_def word_order.extremum)

section \<open>Counting zeros\<close>

lemma takeWhile_upt:
  assumes "n < m" and "P n" and "\<forall>i < n. \<not> P i"
  shows "takeWhile (\<lambda>i. \<not> P i) [0..<m] = [0..<n]"
proof -
  have "[0..<m] = [0..<n] @ n # [Suc n..<m]"
    using assms(1) by (metis le_add_diff_inverse less_imp_le_nat upt_add_eq_append upt_conv_Cons zero_le)
  then show ?thesis using assms(2,3) by (simp add: takeWhile_append)
qed

lemma builtin_ctz_eq:
  fixes w :: "'a::len word"
  assumes "bit w n" and "\<forall>i < n. \<not> bit w i"
  shows "builtin_ctz w = n"
  using takeWhile_upt [of n "LENGTH('a)" "bit w"] assms bit_imp_le_length [OF assms(1)]
  by (simp add: builtin_ctz_def)

lemma lowest_bit:
  fixes w :: "'a::len word"
  assumes "w \<noteq> 0"
  obtains n where "bit w n" "\<forall>i < n. \<not> bit w i" "builtin_ctz w = n" "n < LENGTH('a)"
proof -
  have "\<exists>n. bit w n" using assms by (simp add: word_eq_zero_bits)
  then obtain n where n: "bit w n" "\<forall>i < n. \<not> bit w i" using exists_least_iff [of "bit w"] by auto
  then show ?thesis using builtin_ctz_eq that bit_imp_le_length by blast
qed

lemma highest_bit:
  fixes w :: "'a::len word"
  assumes "w \<noteq> 0"
  obtains n where "bit w n" "\<forall>i > n. \<not> bit w i" "n < LENGTH('a)"
proof -
  let ?S = "{n. bit w n}"
  have ne: "?S \<noteq> {}" using assms by (simp add: word_eq_zero_bits)
  have fin: "finite ?S" by (rule finite_subset [of _ "{..<LENGTH('a)}"]) (auto dest: bit_imp_le_length)
  have top: "bit w (Max ?S)" using Max_in [OF fin ne] by simp
  moreover have "\<forall>i > Max ?S. \<not> bit w i" using Max_ge [OF fin] by (auto simp flip: not_le)
  ultimately show ?thesis using that bit_imp_le_length [OF top] by blast
qed

lemma builtin_clz_eq:
  fixes w :: "'a::len word"
  assumes "bit w n" and "\<forall>i > n. \<not> bit w i"
  shows "builtin_clz w = LENGTH('a) - 1 - n"
proof -
  have n: "n < LENGTH('a)" using assms(1) by (rule bit_imp_le_length)
  then have "rev [0..<LENGTH('a)] = rev [Suc n..<LENGTH('a)] @ n # rev [0..<n]"
    by (metis (no_types, lifting) append.assoc append_Cons append_Nil le_add_diff_inverse less_imp_le_nat rev.simps(2) rev_append upt_add_eq_append upt_conv_Cons zero_le)
  then show ?thesis using assms n by (simp add: builtin_clz_def takeWhile_append)
qed

definition lsb_inv :: "nat \<Rightarrow> u64 \<Rightarrow> nat \<times> u64 \<Rightarrow> bool" where
  "lsb_inv W val s \<longleftrightarrow> (\<exists>n < W. bit (snd s) n) \<and> (\<forall>i < fst s. \<not> bit val i) \<and>
     (\<forall>i. bit (snd s) i = bit val (fst s + i))"

lemma lsbStep_inv:
  assumes "lsb_inv (2 * unat w) val s" and "0 < w" "w \<le> 32"
  shows "\<exists>s'. lsbStep w s = Some s' \<and> lsb_inv (unat w) val s'"
proof -
  have w: "0 < unat w" "unat w \<le> 32" using assms(2,3) by (auto simp: word_less_nat_alt word_le_nat_alt)
  have "unat (w - 1) = unat w - 1" using assms(2) by (simp add: unat_minus_one word_gt_0)
  then have b: "bits_fl (snd s) (w - 1) 0 = Some (take_bit (unat w) (snd s))"
    using w by (subst bits_fl_eq) (auto simp: word_less_nat_alt)
  show ?thesis
  proof (cases "take_bit (unat w) (snd s) = 0")
    case True
    then have z: "\<not> bit (snd s) i" if "i < unat w" for i
      using that by (auto simp: word_eq_zero_bits bit_take_bit_iff)
    have "lsb_inv (unat w) val (fst s + unat w, drop_bit (unat w) (snd s))"
      unfolding lsb_inv_def fst_conv snd_conv
    proof (intro conjI)
      obtain n where n: "n < 2 * unat w" "bit (snd s) n" using assms(1) by (auto simp: lsb_inv_def)
      with z have "unat w \<le> n" by (meson not_le)
      then show "\<exists>n < unat w. bit (drop_bit (unat w) (snd s)) n"
        using n by (intro exI [of _ "n - unat w"]) (auto simp: bit_drop_bit_eq)
      show "\<forall>i < fst s + unat w. \<not> bit val i"
      proof (intro allI impI)
        fix i assume i: "i < fst s + unat w"
        show "\<not> bit val i"
          using assms(1) z [of "i - fst s"] i by (cases "i < fst s") (auto simp: lsb_inv_def)
      qed
      show "\<forall>i. bit (drop_bit (unat w) (snd s)) i = bit val (fst s + unat w + i)"
        using assms(1) by (simp add: lsb_inv_def bit_drop_bit_eq add.assoc)
    qed
    then show ?thesis using b True by (simp add: lsbStep_def)
  next
    case False
    then have "\<exists>n < unat w. bit (snd s) n" by (auto simp: word_eq_zero_bits bit_take_bit_iff)
    then show ?thesis using b False assms(1) by (auto simp: lsbStep_def lsb_inv_def)
  qed
qed

definition msb_inv :: "nat \<Rightarrow> u64 \<Rightarrow> nat \<times> u64 \<Rightarrow> bool" where
  "msb_inv W val s \<longleftrightarrow> (\<exists>n. bit (snd s) n) \<and> (\<forall>i \<ge> W. \<not> bit (snd s) i) \<and>
     (\<forall>i. bit (snd s) i = bit val (fst s + i))"

lemma msbStep_inv:
  assumes "msb_inv (2 * unat w) val s" and "0 < w" "w \<le> 32" "hi = w + w - 1"
  shows "\<exists>s'. msbStep hi w s = Some s' \<and> msb_inv (unat w) val s'"
proof -
  have w: "0 < unat w" "unat w \<le> 32" using assms(2,3) by (auto simp: word_less_nat_alt word_le_nat_alt)
  have "unat (w + w) = 2 * unat w" using w by (subst unat_add_small) auto
  then have h: "unat hi = 2 * unat w - 1"
    using w assms(4) by (subst assms(4), subst unat_minus_one) auto
  then have b: "bits_fl (snd s) hi w = Some (take_bit (unat w) (drop_bit (unat w) (snd s)))"
    using w by (subst bits_fl_eq) (auto simp: word_less_nat_alt word_le_nat_alt)
  have top: "take_bit (unat w) (drop_bit (unat w) (snd s)) = drop_bit (unat w) (snd s)"
  proof (rule bit_word_eqI)
    fix n
    have "\<forall>i \<ge> 2 * unat w. \<not> bit (snd s) i" using assms(1) unfolding msb_inv_def by blast
    then have "\<not> bit (snd s) (unat w + n)" if "unat w \<le> n" using that by simp
    then show "bit (take_bit (unat w) (drop_bit (unat w) (snd s))) n = bit (drop_bit (unat w) (snd s)) n"
      by (cases "unat w \<le> n") (simp_all add: bit_simps)
  qed
  show ?thesis
  proof (cases "drop_bit (unat w) (snd s) = 0")
    case True
    then have "\<not> bit (drop_bit (unat w) (snd s)) j" for j by simp
    then have "\<not> bit (snd s) (unat w + j)" for j by (simp add: bit_drop_bit_eq)
    then have "\<not> bit (snd s) i" if "unat w \<le> i" for i
      using that by (metis le_add_diff_inverse)
    then show ?thesis using assms(1) b top True by (auto simp: msbStep_def msb_inv_def)
  next
    case False
    then have "\<exists>n. bit (drop_bit (unat w) (snd s)) n" by (simp add: word_eq_zero_bits)
    then have "msb_inv (unat w) val (fst s + unat w, drop_bit (unat w) (snd s))"
      using assms(1) by (auto simp: msb_inv_def bit_drop_bit_eq add.assoc)
    then show ?thesis using b top False by (simp add: msbStep_def)
  qed
qed

lemma msb_inv_final:
  assumes "msb_inv 1 val s"
  shows "bit val (fst s)" and "\<forall>i > fst s. \<not> bit val i"
proof -
  have inv: "\<exists>n. bit (snd s) n" "\<And>i. 1 \<le> i \<Longrightarrow> \<not> bit (snd s) i"
    "\<And>i. bit (snd s) i = bit val (fst s + i)"
    using assms unfolding msb_inv_def by blast+
  then obtain n where n: "bit (snd s) n" by blast
  have "n = 0" using inv(2) [of n] n by (cases n) simp_all
  then show "bit val (fst s)" using inv(3) [of 0] n by simp
  show "\<forall>i > fst s. \<not> bit val i"
  proof (intro allI impI)
    fix i
    assume "fst s < i"
    then show "\<not> bit val i" using inv(2,3) [of "i - fst s"] by simp
  qed
qed

lemma unat_highest:
  fixes w :: "'a::len word"
  assumes "bit w m" and "\<forall>i > m. \<not> bit w i"
  shows "2 ^ m \<le> unat w" and "unat w < 2 ^ Suc m"
proof -
  have b: "bit (unat w) m" using assms(1) bit_imp_le_length [OF assms(1)] by (simp add: bit_unsigned_iff)
  show "2 ^ m \<le> unat w"
  proof (rule ccontr)
    assume "\<not> 2 ^ m \<le> unat w"
    then have "take_bit m (unat w) = unat w" by (simp add: take_bit_nat_eq_self)
    with b show False by (metis bit_take_bit_iff less_irrefl)
  qed
  have "take_bit (Suc m) w = w"
    using assms(2) by (intro bit_word_eqI) (auto simp: bit_take_bit_iff less_Suc_eq_le not_less)
  then have "unat w = take_bit (Suc m) (unat w)" by (metis unsigned_take_bit_eq)
  then show "unat w < 2 ^ Suc m" by (metis take_bit_nat_less_exp)
qed

lemma findLsbSetFallback_bit:
  assumes "val \<noteq> 0"
  shows "\<exists>n. findLsbSetFallback val = Some n \<and> bit val n \<and> (\<forall>i < n. \<not> bit val i)"
proof -
  obtain n where "bit val n" "n < 64" using lowest_bit [OF assms] by auto
  then have "lsb_inv (2 * unat (32 :: u32)) val (0, val)" by (auto simp: lsb_inv_def)
  from lsbStep_inv [OF this] obtain s1 where s1: "lsbStep 32 (0, val) = Some s1" "lsb_inv 32 val s1" by auto
  from lsbStep_inv [of 16 val s1] s1 obtain s2 where s2: "lsbStep 16 s1 = Some s2" "lsb_inv 16 val s2" by auto
  from lsbStep_inv [of 8 val s2] s2 obtain s3 where s3: "lsbStep 8 s2 = Some s3" "lsb_inv 8 val s3" by auto
  from lsbStep_inv [of 4 val s3] s3 obtain s4 where s4: "lsbStep 4 s3 = Some s4" "lsb_inv 4 val s4" by auto
  from lsbStep_inv [of 2 val s4] s4 obtain s5 where s5: "lsbStep 2 s4 = Some s5" "lsb_inv 2 val s5" by auto
  from lsbStep_inv [of 1 val s5] s5 obtain s6 where s6: "lsbStep 1 s5 = Some s6" "lsb_inv 1 val s6" by auto
  then show ?thesis
    using assms s1 s2 s3 s4 s5 by (auto simp: findLsbSetFallback_def lsb_inv_def)
qed

lemma findMsbSet_bit:
  assumes "val \<noteq> 0"
  shows "\<exists>m. findMsbSet val = Some m \<and> bit val m \<and> (\<forall>i > m. \<not> bit val i)"
proof -
  have "\<exists>n. bit val n" using assms by (simp add: word_eq_zero_bits)
  then have "msb_inv (2 * unat (32 :: u32)) val (0, val)"
    by (auto simp: msb_inv_def dest: bit_imp_le_length)
  from msbStep_inv [OF this, of 63] obtain s1 where s1: "msbStep 63 32 (0, val) = Some s1" "msb_inv 32 val s1" by auto
  from msbStep_inv [of 16 val s1 31] s1 obtain s2 where s2: "msbStep 31 16 s1 = Some s2" "msb_inv 16 val s2" by auto
  from msbStep_inv [of 8 val s2 15] s2 obtain s3 where s3: "msbStep 15 8 s2 = Some s3" "msb_inv 8 val s3" by auto
  from msbStep_inv [of 4 val s3 7] s3 obtain s4 where s4: "msbStep 7 4 s3 = Some s4" "msb_inv 4 val s4" by auto
  from msbStep_inv [of 2 val s4 3] s4 obtain s5 where s5: "msbStep 3 2 s4 = Some s5" "msb_inv 2 val s5" by auto
  from msbStep_inv [of 1 val s5 1] s5 obtain s6 where s6: "msbStep 1 1 s5 = Some s6" "msb_inv 1 val s6" by auto
  then show ?thesis
    using assms s1 s2 s3 s4 s5 msb_inv_final [of val s6] by (auto simp: findMsbSet_def)
qed

section \<open>Smearing\<close>

definition smeared :: "nat \<Rightarrow> u64 \<Rightarrow> u64 \<Rightarrow> bool" where
  "smeared n v w \<longleftrightarrow> (\<forall>i. bit w i = (\<exists>k < n. bit v (i + k)))"

lemma smeared_step:
  assumes "smeared n v w"
  shows "smeared (2 * n) v (w OR drop_bit n w)"
  unfolding smeared_def
proof
  fix i
  have "(\<exists>k < 2 * n. bit v (i + k)) \<longleftrightarrow> (\<exists>k < n. bit v (i + k)) \<or> (\<exists>k < n. bit v (i + n + k))" (is "?L \<longleftrightarrow> ?R")
  proof
    assume ?L
    then obtain k where k: "k < 2 * n" "bit v (i + k)" by auto
    show ?R
    proof (cases "k < n")
      case False
      then have "k - n < n" "bit v (i + n + (k - n))" using k by auto
      then show ?thesis by blast
    qed (use k in auto)
  next
    assume ?R
    then show ?L
    proof
      assume "\<exists>k < n. bit v (i + n + k)"
      then obtain k where "k < n" "bit v (i + n + k)" by auto
      then show ?L by (intro exI [of _ "n + k"]) (auto simp: add.assoc)
    next
      assume "\<exists>k < n. bit v (i + k)"
      then obtain k where "k < n" "bit v (i + k)" by auto
      then show ?L by (intro exI [of _ k]) simp
    qed
  qed
  then show "bit (w OR drop_bit n w) i = (\<exists>k < 2 * n. bit v (i + k))"
    using assms by (simp add: smeared_def bit_or_iff bit_drop_bit_eq add.commute [of n])
qed

lemma alignToPowerOfTwo_smeared:
  "\<exists>w. smeared 64 (val - 1) w \<and> alignToPowerOfTwo val = w + 1"
proof -
  have "smeared 1 (val - 1) (val - 1)" by (simp add: smeared_def)
  note s1 = smeared_step [OF this]
  note s2 = smeared_step [OF s1]
  note s3 = smeared_step [OF s2]
  note s4 = smeared_step [OF s3]
  note s5 = smeared_step [OF s4]
  note s6 = smeared_step [OF s5]
  from s6 show ?thesis by (auto simp: alignToPowerOfTwo_def Let_def)
qed

section \<open>The theorems\<close>

text \<open>
  C30: The binary searches of \<open>findLsbSetFallback\<close> and \<open>findMsbSet\<close> find the lowest
  and the highest set bit: they agree with the compiler's built-in functions that count
  trailing and leading zeros, on every 64-bit value; \<open>findMsbSet\<close> is the rounded down
  logarithm.
\<close>

theorem bit_search_equiv:
  "findLsbSetFallback val = Some (ctz64 val) \<and>
   findMsbSet val = Some (if val = 0 then 0 else 63 - clz64 val) \<and>
   (val = 0 \<or> (\<exists>m. findMsbSet val = Some m \<and> 2 ^ m \<le> unat val \<and> unat val < 2 ^ Suc m))"
proof (cases "val = 0")
  case True
  then show ?thesis by (simp add: findLsbSetFallback_def findMsbSet_def ctz64_def)
next
  case False
  obtain n where n: "findLsbSetFallback val = Some n" "bit val n" "\<forall>i < n. \<not> bit val i"
    using findLsbSetFallback_bit [OF False] by auto
  obtain m where m: "findMsbSet val = Some m" "bit val m" "\<forall>i > m. \<not> bit val i"
    using findMsbSet_bit [OF False] by auto
  have "builtin_ctz val = n" "builtin_clz val = 63 - m" "m < 64"
    using builtin_ctz_eq [OF n(2,3)] builtin_clz_eq [OF m(2,3)] bit_imp_le_length [OF m(2)] by simp_all
  then show ?thesis
    using False n(1) m(1) unat_highest [OF m(2,3)] by (simp add: ctz64_def clz64_def)
qed

text \<open>
  C33: \<open>alignToPowerOfTwo\<close> rounds up to a power of two: for every value that is not
  zero the result is \<open>2^k\<close> (0 for \<open>k = 64\<close>) with the least \<open>k\<close> such that the value
  does not exceed \<open>2^k\<close>; zero gives zero.
\<close>

theorem alignToPowerOfTwo_least:
  "if val = 0 then alignToPowerOfTwo val = 0
   else \<exists>k \<le> 64. alignToPowerOfTwo val = 2 ^ k \<and> unat val \<le> 2 ^ k \<and>
     (\<forall>j. unat val \<le> 2 ^ j \<longrightarrow> k \<le> j)"
proof -
  obtain w where w: "smeared 64 (val - 1) w" "alignToPowerOfTwo val = w + 1"
    using alignToPowerOfTwo_smeared by blast
  show ?thesis
  proof (cases "val - 1 = 0")
    case True
    then have "w = 0" using w(1) by (simp add: smeared_def word_eq_zero_bits)
    then show ?thesis using True w(2) by (auto intro!: exI [of _ 0])
  next
    case False
    obtain m where m: "bit (val - 1) m" "\<forall>i > m. \<not> bit (val - 1) i" "m < 64"
      using highest_bit [OF False] by auto
    have bits: "bit w i \<longleftrightarrow> i \<le> m" for i
    proof
      assume "bit w i"
      then obtain k where "bit (val - 1) (i + k)" using w(1) by (auto simp: smeared_def)
      then show "i \<le> m" using m(2) by (metis add_leD1 not_le)
    next
      assume "i \<le> m"
      then have "m - i < 64" "bit (val - 1) (i + (m - i))" using m by auto
      then show "bit w i" using w(1) unfolding smeared_def by blast
    qed
    have "w = mask (Suc m)"
      by (rule bit_word_eqI) (use m(3) in \<open>auto simp: bits bit_mask_iff less_Suc_eq_le\<close>)
    then have r: "alignToPowerOfTwo val = 2 ^ Suc m" using w(2) by (simp add: mask_eq_exp_minus_1)
    show ?thesis
    proof (cases "val = 0")
      case True
      have "bit (val - 1) 63" using True by simp
      then have "\<not> m < 63" using m(2) by blast
      then have "m = 63" using m(3) by simp
      then show ?thesis using True r by simp
    next
      case False
      have "unat (val - 1) = unat val - 1" using False by (simp add: unat_minus_one)
      then have b: "2 ^ m < unat val" "unat val \<le> 2 ^ Suc m"
        using unat_highest [OF m(1,2)] by auto
      have "Suc m \<le> j" if "unat val \<le> 2 ^ j" for j
      proof -
        have "(2 :: nat) ^ m < 2 ^ j" using b(1) that by linarith
        then show ?thesis by simp
      qed
      then show ?thesis using False r b m(3) by (auto intro!: exI [of _ "Suc m"])
    qed
  qed
qed

theorem alignToPowerOfTwo_least_witness:
  "alignToPowerOfTwo 1000 = 1024 \<and>
    (\<exists>k \<le> 64. alignToPowerOfTwo 1000 = 2 ^ k \<and> (\<forall>j. 1000 \<le> (2 :: nat) ^ j \<longrightarrow> k \<le> j))"
proof -
  have "alignToPowerOfTwo 1000 = 1024" by (simp add: alignToPowerOfTwo_def Let_def)
  then show ?thesis using alignToPowerOfTwo_least [of 1000] by auto
qed

text \<open>
  C34: Sign extension: \<open>szext\<close> of every value, and \<open>sext\<close> of a value without bits
  past the sign, give the word whose signed value is that of the low \<open>N\<close> bits.
\<close>

theorem sign_extension:
  assumes "0 < N" and "N \<le> 64"
  shows "szext N val = Some (signed_take_bit (unat N - 1) val) \<and>
    (take_bit (unat N) val = val \<longrightarrow> sext val N = Some (signed_take_bit (unat N - 1) val))"
proof -
  let ?n = "unat N - 1"
  have "0 < unat N" "unat N \<le> 64" using assms by (auto simp: word_less_nat_alt word_le_nat_alt)
  moreover have "unat (N - 1) = ?n" using assms(1) by (intro unat_minus_one) (auto simp: word_gt_0)
  ultimately have n: "unat (N - 1) = ?n" "0 < unat N" "unat N \<le> 64" "?n < 64" by auto
  then have "N - 1 < 64" by (simp add: word_less_nat_alt)
  then have "bits_at val (N - 1) = Some (take_bit 1 (drop_bit ?n val))"
    using n by (simp add: bits_at_def bits_fl_eq)
  moreover have sign: "take_bit 1 (drop_bit ?n val) \<noteq> 0 \<longleftrightarrow> bit val ?n"
    by (simp add: bit_iff_odd_drop_bit [of val] word_eq_zero_bits bit_take_bit_iff bit_0)
  moreover have "(if bit val ?n then val OR NOT (mask_n N) else val AND mask_n N) =
      signed_take_bit ?n val"
  proof (rule bit_word_eqI)
    fix i
    assume "i < LENGTH(64)"
    then show "bit (if bit val ?n then val OR NOT (mask_n N) else val AND mask_n N) i =
        bit (signed_take_bit ?n val) i"
      using n by (cases i ?n rule: linorder_cases) (auto simp: bit_simps bit_mask_n)
  qed
  moreover have "val AND mask_n N = take_bit (unat N) val"
    by (rule bit_word_eqI) (auto simp: bit_simps bit_mask_n)
  ultimately show ?thesis by (auto simp: szext_def sext_def)
qed

theorem sign_extension_witness:
  "szext 12 0x1800 = Some (- 0x800) \<and> sext 0x800 12 = Some (- 0x800)"
  using sign_extension [of 12 "0x1800"] sign_extension [of 12 "0x800"]
  by (simp add: signed_take_bit_eq_if_negative bit_numeral_simps)

text \<open>
  C35: \<open>insertBits\<close> and \<open>bits\<close> are inverse: reading the field that was written gives
  the low bits of the value, and the bits outside the field are kept.
\<close>

theorem insert_extract:
  assumes "lo \<le> hi" and "hi < 64"
  shows "\<exists>r. insertBits val hi lo v = Some r \<and>
    bits_fl r hi lo = Some (take_bit (unat hi - unat lo + 1) v) \<and>
    (\<forall>i. i < unat lo \<or> unat hi < i \<longrightarrow> bit r i = bit val i)"
proof -
  obtain r where r: "insertBits val hi lo v = Some r"
    "\<forall>i. bit r i = (if unat lo \<le> i \<and> i \<le> unat hi then bit v (i - unat lo) else bit val i)"
    using bit_insertBits [OF assms] by blast
  have "unat lo \<le> unat hi" "unat hi < 64" using assms by (auto simp: word_le_nat_alt word_less_nat_alt)
  then have "take_bit (unat hi - unat lo + 1) (drop_bit (unat lo) r) = take_bit (unat hi - unat lo + 1) v"
    by (intro bit_word_eqI) (auto simp: bit_simps r(2))
  then show ?thesis using r bits_fl_eq [OF assms] by auto
qed

theorem insert_extract_witness:
  "insertBits 0xFFFF 7 4 0 = Some 0xFF0F \<and> bits_fl 0xFF0F 7 4 = Some 0"
proof -
  have "insertBits 0xFFFF 7 4 0 = Some 0xFF0F"
    by (simp add: insertBits_def mask_fl_def mbits_def mask_n_def)
  then show ?thesis using insert_extract [of 4 7 "0xFFFF" 0] by simp
qed

end
