(* ===== verification/IntMath.thy ===== *)
theory IntMath
  imports Bitfield
begin

text \<open>
  Integer arithmetic: \<open>base/intmath.hh\<close>. The templates are modelled at the types that
  the code instantiates: 64-bit unsigned values, with the size of the template type as an
  argument of \<open>floorLog2\<close>, and 32- and 64-bit factors for the wide products.
\<close>

section \<open>The code\<close>

definition logStep :: "u64 \<Rightarrow> nat \<Rightarrow> nat \<times> u64 \<Rightarrow> nat \<times> u64" where
  "logStep msk w s = (if snd s AND msk \<noteq> 0 then (fst s + w, drop_bit w (snd s)) else s)"

definition floorLog2 :: "nat \<Rightarrow> u64 \<Rightarrow> nat option" where
  "floorLog2 ts x = do {
     check (0 < x);
     let s = (0, x);
     let s = (if 8 \<le> ts then logStep 0xffffffff00000000 32 s else s);
     let s = (if 4 \<le> ts then logStep 0x00000000ffff0000 16 s else s);
     let s = (if 2 \<le> ts then logStep 0x000000000000ff00 8 s else s);
     let s = logStep 0x00000000000000f0 4 s;
     let s = logStep 0x000000000000000c 2 s;
     Some (if snd s AND 0x0000000000000002 \<noteq> 0 then fst s + 1 else fst s) }"

text \<open>\<open>n - (T)1\<close> is an \<open>int\<close> when \<open>T\<close> is shorter, so \<open>floorLog2\<close> runs at four bytes at least.\<close>

definition ceilLog2 :: "nat \<Rightarrow> u64 \<Rightarrow> nat option" where
  "ceilLog2 ts n = do {
     check (0 < n);
     if n = 1 then Some 0
     else do { l \<leftarrow> floorLog2 (max 4 ts) (n - 1); Some (l + 1) } }"

definition isPowerOf2 :: "'a::len word \<Rightarrow> bool" where
  "isPowerOf2 n \<longleftrightarrow> n \<noteq> 0 \<and> \<not> n AND (n - 1) \<noteq> 0"

text \<open>The products return the high and the low half.\<close>

definition mulUnsigned32 :: "u32 \<Rightarrow> u32 \<Rightarrow> u32 \<times> u32" where
  "mulUnsigned32 val_a val_b =
     (let product = (ucast val_a :: u64) * ucast val_b in
      (ucast (drop_bit 32 product), ucast product))"

definition mulSigned32 :: "u32 \<Rightarrow> u32 \<Rightarrow> u32 \<times> u32" where
  "mulSigned32 val_a val_b =
     (let product = (scast val_a :: u64) * scast val_b in
      (ucast (drop_bit 32 product), ucast product))"

definition mulUnsignedManual :: "u64 \<Rightarrow> u64 \<Rightarrow> u64 \<times> u64" where
  "mulUnsignedManual val_a val_b =
     (let low = val_a * val_b;
          A = ucast (ucast (drop_bit 32 val_a) :: u32);
          a = ucast (ucast val_a :: u32);
          B = ucast (ucast (drop_bit 32 val_b) :: u32);
          b = ucast (ucast val_b :: u32);
          ab = a * b;
          Ab = A * b;
          aB = a * B;
          AB = A * B;
          c1 = ucast (ucast (drop_bit 32 ab) :: u32);
          c2 = drop_bit 1 c1 + drop_bit 1 Ab + drop_bit 1 aB;
          c2 = c2 + drop_bit 1 ((c1 AND 1) + (Ab AND 1) + (aB AND 1));
          c2 = drop_bit 31 c2
      in (AB + c2, low))"

definition mulUnsigned64 :: "u64 \<Rightarrow> u64 \<Rightarrow> u64 \<times> u64" where
  "mulUnsigned64 val_a val_b =
     (let val = (ucast val_a :: 128 word) * ucast val_b in
      (ucast (drop_bit 64 val), ucast val))"

definition mulSignedManual :: "u64 \<Rightarrow> u64 \<Rightarrow> u64 \<times> u64" where
  "mulSignedManual val_a val_b =
     (let (u_high, u_low) = mulUnsigned64 val_a val_b;
          u_high = (if sint val_a < 0 then u_high - val_b else u_high);
          u_high = (if sint val_b < 0 then u_high - val_a else u_high)
      in (u_high, u_low))"

definition mulSigned64 :: "u64 \<Rightarrow> u64 \<Rightarrow> u64 \<times> u64" where
  "mulSigned64 val_a val_b =
     (let val = (scast val_a :: 128 word) * scast val_b in
      (ucast (drop_bit 64 val), ucast val))"

definition roundUp :: "u64 \<Rightarrow> u64 \<Rightarrow> u64 option" where
  "roundUp val align = do {
     check (isPowerOf2 align);
     let msk = align - 1;
     Some ((val + msk) AND NOT msk) }"

definition roundDown :: "u64 \<Rightarrow> u64 \<Rightarrow> u64 option" where
  "roundDown val align = do {
     check (isPowerOf2 align);
     let msk = align - 1;
     Some (val AND NOT msk) }"

definition log2i :: "u32 \<Rightarrow> nat option" where
  "log2i value = do {
     check (isPowerOf2 value \<and> 0 < sint value);
     Some (ctz32 value) }"

section \<open>Logarithms\<close>

lemma logStep_inv:
  assumes "msb_inv (2 * w) val s" and "\<And>i. bit msk i \<longleftrightarrow> w \<le> i \<and> i < 2 * w"
  shows "msb_inv w val (logStep msk w s)"
proof -
  have inv: "\<exists>n. bit (snd s) n" "\<And>i. 2 * w \<le> i \<Longrightarrow> \<not> bit (snd s) i"
    "\<And>i. bit (snd s) i = bit val (fst s + i)"
    using assms(1) unfolding msb_inv_def by blast+
  show ?thesis
  proof (cases "snd s AND msk = 0")
    case True
    then have "\<not> bit (snd s) i" if "w \<le> i" for i
      using inv(2) [of i] that assms(2) [of i] by (auto simp: word_eq_zero_bits bit_and_iff not_le)
    with True inv show ?thesis unfolding msb_inv_def logStep_def by auto
  next
    case False
    then obtain i where "w \<le> i" "bit (snd s) i" by (auto simp: word_eq_zero_bits bit_and_iff assms(2))
    then have "bit (drop_bit w (snd s)) (i - w)" by (simp add: bit_drop_bit_eq)
    then have "\<exists>n. bit (drop_bit w (snd s)) n" by blast
    moreover have "\<not> bit (drop_bit w (snd s)) i" if "w \<le> i" for i
      using inv(2) [of "w + i"] that by (simp add: bit_drop_bit_eq)
    moreover have "bit (drop_bit w (snd s)) i = bit val (fst s + w + i)" for i
      using inv(3) [of "w + i"] by (simp add: bit_drop_bit_eq add.assoc)
    ultimately show ?thesis using False by (simp add: msb_inv_def logStep_def)
  qed
qed

lemma bit_field_mask:
  assumes "msk = push_bit w (mask w :: u64)" and "2 * w \<le> 64"
  shows "bit msk i \<longleftrightarrow> w \<le> i \<and> i < 2 * w"
  using assms by (auto simp: bit_simps)

lemma field_masks:
  "(0xffffffff00000000 :: u64) = push_bit 32 (mask 32)" "(0xffff0000 :: u64) = push_bit 16 (mask 16)"
  "(0xff00 :: u64) = push_bit 8 (mask 8)" "(0xf0 :: u64) = push_bit 4 (mask 4)"
  "(0xc :: u64) = push_bit 2 (mask 2)" "(0x2 :: u64) = push_bit 1 (mask 1)"
  by (simp_all add: push_bit_eq_mult mask_eq_exp_minus_1)

lemma floorLog2_bit:
  assumes "0 < x" and "ts = 1 \<or> ts = 2 \<or> ts = 4 \<or> ts = 8" and "unat x < 2 ^ (8 * ts)"
  shows "\<exists>m. floorLog2 ts x = Some m \<and> bit x m \<and> (\<forall>i > m. \<not> bit x i)"
proof -
  have "x \<noteq> 0" using assms(1) by (simp add: word_gt_0)
  then obtain n where n: "bit x n" "\<forall>i > n. \<not> bit x i" using highest_bit by blast
  have "2 ^ n \<le> unat x" by (rule unat_highest(1) [OF n])
  with assms(3) have "(2 :: nat) ^ n < 2 ^ (8 * ts)" by linarith
  then have "n < 8 * ts" by simp
  then have inv: "msb_inv (8 * ts) x (0, x)" using n by (auto simp: msb_inv_def)
  define s1 where "s1 = (if 8 \<le> ts then logStep 0xffffffff00000000 32 (0, x) else (0, x))"
  define s2 where "s2 = (if 4 \<le> ts then logStep 0x00000000ffff0000 16 s1 else s1)"
  define s3 where "s3 = (if 2 \<le> ts then logStep 0x000000000000ff00 8 s2 else s2)"
  define s4 where "s4 = logStep 0x00000000000000f0 4 s3"
  define s5 where "s5 = logStep 0x000000000000000c 2 s4"
  define s6 where "s6 = logStep 0x0000000000000002 1 s5"
  have i1: "msb_inv (if 8 \<le> ts then 32 else 8 * ts) x s1"
    using inv assms(2) logStep_inv [of 32 x "(0, x)", OF _ bit_field_mask [OF field_masks(1)]]
    by (auto simp: s1_def)
  have i2: "msb_inv (if 4 \<le> ts then 16 else 8 * ts) x s2"
    using i1 assms(2) logStep_inv [of 16 x s1, OF _ bit_field_mask [OF field_masks(2)]]
    by (auto simp: s2_def)
  have i3: "msb_inv 8 x s3"
    using i2 assms(2) logStep_inv [of 8 x s2, OF _ bit_field_mask [OF field_masks(3)]]
    by (auto simp: s3_def)
  have i4: "msb_inv 4 x s4"
    using i3 logStep_inv [of 4 x s3, OF _ bit_field_mask [OF field_masks(4)]] by (simp add: s4_def)
  have i5: "msb_inv 2 x s5"
    using i4 logStep_inv [of 2 x s4, OF _ bit_field_mask [OF field_masks(5)]] by (simp add: s5_def)
  have i6: "msb_inv 1 x s6"
    using i5 logStep_inv [of 1 x s5, OF _ bit_field_mask [OF field_masks(6)]] by (simp add: s6_def)
  have "floorLog2 ts x = Some (if snd s5 AND 0x0000000000000002 \<noteq> 0 then fst s5 + 1 else fst s5)"
    unfolding floorLog2_def Let_def s1_def s2_def s3_def s4_def s5_def
    by (simp only: check_bind_True [OF assms(1)])
  then have "floorLog2 ts x = Some (fst s6)" by (simp add: s6_def logStep_def)
  then show ?thesis using msb_inv_final [OF i6] by simp
qed

section \<open>Powers of two and rounding\<close>

lemma isPowerOf2_iff:
  fixes n :: "'a::len word"
  shows "isPowerOf2 n \<longleftrightarrow> (\<exists>k < LENGTH('a). n = 2 ^ k)"
proof
  assume "isPowerOf2 n"
  then have n: "n \<noteq> 0" "n AND (n - 1) = 0" by (auto simp: isPowerOf2_def)
  obtain k where k: "bit n k" "\<forall>i > k. \<not> bit n i" "k < LENGTH('a)" using highest_bit [OF n(1)] by blast
  have lo: "2 ^ k \<le> unat n" and hi: "unat n < 2 ^ Suc k" using unat_highest [OF k(1,2)] by auto
  have "unat n = 2 ^ k"
  proof (rule ccontr)
    assume "unat n \<noteq> 2 ^ k"
    then have "2 ^ k \<le> unat (n - 1)" "unat (n - 1) < 2 ^ Suc k"
      using lo hi n(1) by (auto simp: unat_minus_one)
    then have "n - 1 \<noteq> 0" by auto
    then obtain j where j: "bit (n - 1) j" "\<forall>i > j. \<not> bit (n - 1) i" using highest_bit by blast
    have "(2 :: nat) ^ j < 2 ^ Suc k" "(2 :: nat) ^ k < 2 ^ Suc j"
      using unat_highest [OF j] \<open>2 ^ k \<le> unat (n - 1)\<close> \<open>unat (n - 1) < 2 ^ Suc k\<close> by linarith+
    then have "j < Suc k" "k < Suc j" by (simp_all only: power_strict_increasing_iff)
    then have "j = k" by simp
    then have "bit (n AND (n - 1)) k" using j(1) k(1) by (simp add: bit_and_iff)
    then show False using n(2) by simp
  qed
  moreover have "n = of_nat (unat n)" by simp
  ultimately have "n = 2 ^ k" by simp
  then show "\<exists>k < LENGTH('a). n = 2 ^ k" using k(3) by blast
next
  assume "\<exists>k < LENGTH('a). n = 2 ^ k"
  then obtain k where k: "k < LENGTH('a)" "n = 2 ^ k" by blast
  have "n - 1 = mask k" using k(2) by (simp add: mask_eq_exp_minus_1)
  then have "n AND (n - 1) = 0" using k by (intro bit_word_eqI) (auto simp: bit_simps)
  then show "isPowerOf2 n" using k by (simp add: isPowerOf2_def)
qed

lemma unat_lt64: "unat (w :: u64) < 2 ^ 64"
  using unsigned_less [of w] by simp

lemma unat_add_mask:
  assumes "unat val + 2 ^ k \<le> 2 ^ 64"
  shows "unat (val + mask k :: u64) = unat val + 2 ^ k - 1"
proof -
  define n where "n = unat val + (2 ^ k - 1)"
  have "(0 :: nat) < 2 ^ k" by simp
  then have n: "n = unat val + 2 ^ k - 1" "n < 2 ^ 64" using assms unfolding n_def by linarith+
  have "of_nat (2 ^ k - 1) = (mask k :: u64)" by (simp add: mask_eq_exp_minus_1 of_nat_diff)
  then have "val + mask k = of_nat n" unfolding n_def of_nat_add by simp
  moreover have "unat (of_nat n :: u64) = n" using n(2) by (simp add: unat_of_nat)
  ultimately show ?thesis using n(1) by simp
qed

lemma and_not_mask: "unat (w AND NOT (mask k :: u64)) = unat w div 2 ^ k * 2 ^ k"
proof -
  have "w AND NOT (mask k) = push_bit k (drop_bit k w)"
    by (rule bit_word_eqI) (auto simp: bit_simps)
  then have "unat (w AND NOT (mask k)) = take_bit 64 (push_bit k (drop_bit k (unat w)))"
    using unat_lt64 [of w]
    by (simp add: unsigned_push_bit_eq unsigned_drop_bit_eq take_bit_nat_eq_self)
  also have "push_bit k (drop_bit k (unat w)) = unat w div 2 ^ k * 2 ^ k"
    by (simp add: push_bit_eq_mult drop_bit_eq_div)
  also have "take_bit 64 \<dots> = unat w div 2 ^ k * 2 ^ k"
    by (rule take_bit_nat_eq_self) (rule le_less_trans [OF div_times_less_eq_dividend unat_lt64])
  finally show ?thesis .
qed

section \<open>Wide products\<close>

lemma unat_halves:
  fixes v :: u64
  shows "unat (ucast (ucast (drop_bit 32 v) :: u32) :: u64) = unat v div 2 ^ 32"
    and "unat (ucast (ucast v :: u32) :: u64) = unat v mod 2 ^ 32"
proof -
  have "unat v < 2 ^ 64" by (rule unat_lt64)
  then have "unat v div 2 ^ 32 < 2 ^ 32" by simp
  then show "unat (ucast (ucast (drop_bit 32 v) :: u32) :: u64) = unat v div 2 ^ 32"
    by (simp add: unsigned_ucast_eq unsigned_drop_bit_eq drop_bit_eq_div take_bit_eq_mod unat_div unat_mod)
  show "unat (ucast (ucast v :: u32) :: u64) = unat v mod 2 ^ 32"
    by (simp add: unsigned_ucast_eq take_bit_eq_mod unat_mod)
qed

lemma product_halves:
  fixes A a B b :: nat
  assumes "A < 2 ^ 32" "a < 2 ^ 32" "B < 2 ^ 32" "b < 2 ^ 32"
  shows "(A * 2 ^ 32 + a) * (B * 2 ^ 32 + b) div 2 ^ 64 =
    A * B + (a * b div 2 ^ 32 + A * b + a * B) div 2 ^ 32"
proof -
  let ?X = "a * b div 2 ^ 32 + A * b + a * B"
  have "(A * 2 ^ 32 + a) * (B * 2 ^ 32 + b) = A * B * 2 ^ 64 + (A * b + a * B) * 2 ^ 32 + a * b"
    by (simp add: algebra_simps)
  also have "a * b = a * b div 2 ^ 32 * 2 ^ 32 + a * b mod 2 ^ 32" by simp
  finally have "(A * 2 ^ 32 + a) * (B * 2 ^ 32 + b) = A * B * 2 ^ 64 + (?X * 2 ^ 32 + a * b mod 2 ^ 32)"
    by (simp add: algebra_simps)
  moreover have "(?X * 2 ^ 32 + a * b mod 2 ^ 32) div 2 ^ 64 = ?X div 2 ^ 32"
  proof -
    have "(?X * 2 ^ 32 + a * b mod 2 ^ 32) div 2 ^ 32 = ?X" by simp
    moreover have "(2 :: nat) ^ 64 = 2 ^ 32 * 2 ^ 32" by simp
    ultimately show ?thesis by (simp only: div_mult2_eq)
  qed
  ultimately show ?thesis by simp
qed

lemma carry_sum:
  fixes x y z :: nat
  shows "x div 2 + y div 2 + z div 2 + (x mod 2 + y mod 2 + z mod 2) div 2 = (x + y + z) div 2"
proof -
  have "x + y + z = (x mod 2 + y mod 2 + z mod 2) + (x div 2 + y div 2 + z div 2) * 2"
    by (simp add: algebra_simps)
  then show ?thesis by (metis add.commute div_mult_self1 zero_neq_numeral)
qed

lemma unat_and_1: "unat (w AND 1 :: u64) = unat w mod 2"
  by (simp add: and_one_eq unat_mod)

lemma ones: "unat (p AND 1 :: u64) + unat (q AND 1 :: u64) + unat (r AND 1 :: u64) < 2 ^ 64"
proof -
  have "unat (w AND 1) \<le> 1" for w :: u64 by (simp add: unat_and_1 flip: less_Suc_eq_le)
  from this [of p] this [of q] this [of r] show ?thesis by simp
qed

lemma half_product:
  fixes x y :: nat
  assumes "x < 2 ^ 32" "y < 2 ^ 32"
  shows "x * y \<le> (2 ^ 32 - 1) * (2 ^ 32 - 1)"
  using assms by (intro mult_le_mono) simp_all

lemma unat_sum2: "unat p + unat q < 2 ^ 64 \<Longrightarrow> unat (p + q :: u64) = unat p + unat q"
  by (simp add: unat_add_small)

lemma unat_sum3:
  fixes p q r :: u64
  assumes "unat p + unat q + unat r < 2 ^ 64"
  shows "unat (p + q + r) = unat p + unat q + unat r"
  using assms by (simp add: unat_add_small)

lemma carry_bounds:
  fixes c x y :: nat
  assumes "c < 2 ^ 32" "x \<le> (2 ^ 32 - 1) * (2 ^ 32 - 1)" "y \<le> (2 ^ 32 - 1) * (2 ^ 32 - 1)"
  shows "c div 2 + x div 2 + y div 2 < 2 ^ 64" and "(c + x + y) div 2 < 2 ^ 64"
  using assms by simp_all

lemma mulUnsignedManual_nat:
  "unat (fst (mulUnsignedManual x y)) = unat x * unat y div 2 ^ 64"
proof -
  let ?A = "unat x div 2 ^ 32" and ?a = "unat x mod 2 ^ 32"
  let ?B = "unat y div 2 ^ 32" and ?b = "unat y mod 2 ^ 32"
  define A where "A = (ucast (ucast (drop_bit 32 x) :: u32) :: u64)"
  define a where "a = (ucast (ucast x :: u32) :: u64)"
  define B where "B = (ucast (ucast (drop_bit 32 y) :: u32) :: u64)"
  define b where "b = (ucast (ucast y :: u32) :: u64)"
  define c1 where "c1 = (ucast (ucast (drop_bit 32 (a * b)) :: u32) :: u64)"
  have un: "unat A = ?A" "unat a = ?a" "unat B = ?B" "unat b = ?b"
    unfolding A_def a_def B_def b_def by (rule unat_halves)+
  have lt: "?A < 2 ^ 32" "?B < 2 ^ 32" "?a < 2 ^ 32" "?b < 2 ^ 32"
    using unat_lt64 [of x] unat_lt64 [of y] by simp_all
  note le = half_product [OF lt(3,4)] half_product [OF lt(1,4)] half_product [OF lt(3,2)] half_product [OF lt(1,2)]
  have prod: "unat (a * b) = ?a * ?b" "unat (A * b) = ?A * ?b" "unat (a * B) = ?a * ?B" "unat (A * B) = ?A * ?B"
    using le by (simp_all add: unat_mult_small un)
  have c1: "unat c1 = ?a * ?b div 2 ^ 32" unfolding c1_def unat_halves(1) prod ..
  let ?c = "?a * ?b div 2 ^ 32" and ?x = "?A * ?b" and ?y = "?a * ?B"
  have c: "?c < 2 ^ 32" using le(1) by simp
  let ?h = "drop_bit 1 c1 + drop_bit 1 (A * b) + drop_bit 1 (a * B)"
  have half: "unat (drop_bit 1 w) = unat w div 2" for w :: u64
    by (simp add: drop_bit_eq_div unat_div)
  have h: "unat ?h = ?c div 2 + ?x div 2 + ?y div 2"
    by (subst unat_sum3) (simp_all only: half prod c1 carry_bounds(1) [OF c le(2,3)])
  have k: "unat (drop_bit 1 ((c1 AND 1) + (A * b AND 1) + (a * B AND 1))) = (?c mod 2 + ?x mod 2 + ?y mod 2) div 2"
    by (simp only: half unat_sum3 [OF ones] unat_and_1 prod c1)
  have "unat (?h + drop_bit 1 ((c1 AND 1) + (A * b AND 1) + (a * B AND 1))) = (?c + ?x + ?y) div 2"
    by (subst unat_sum2) (simp_all only: h k carry_sum carry_bounds(2) [OF c le(2,3)])
  then have "unat (drop_bit 31 (?h + drop_bit 1 ((c1 AND 1) + (A * b AND 1) + (a * B AND 1)))) =
      (?c + ?x + ?y) div 2 ^ 32"
    by (simp add: unsigned_drop_bit_eq drop_bit_eq_div unat_div flip: div_mult2_eq)
  moreover have "fst (mulUnsignedManual x y) =
      A * B + drop_bit 31 (?h + drop_bit 1 ((c1 AND 1) + (A * b AND 1) + (a * B AND 1)))"
    by (simp add: mulUnsignedManual_def Let_def A_def a_def B_def b_def c1_def)
  moreover have eq: "?A * ?B + (?c + ?x + ?y) div 2 ^ 32 = unat x * unat y div 2 ^ 64"
    using product_halves [OF lt(1,3,2,4)] by simp
  moreover have "unat x * unat y < 2 ^ 64 * 2 ^ 64"
    using unat_lt64 [of x] unat_lt64 [of y] by (intro mult_strict_mono) simp_all
  then have "unat x * unat y div 2 ^ 64 < 2 ^ 64" by (simp add: less_mult_imp_div_less)
  ultimately show ?thesis by (simp add: unat_add_small prod)
qed

lemma high_half: "ucast (drop_bit 64 (word_of_int P :: 128 word)) = (word_of_int (P div 2 ^ 64) :: u64)"
proof (rule bit_word_eqI)
  fix n
  assume "n < LENGTH(64)"
  then show "bit (ucast (drop_bit 64 (word_of_int P :: 128 word)) :: u64) n =
      bit (word_of_int (P div 2 ^ 64) :: u64) n"
    unfolding drop_bit_eq_div [symmetric]
    by (simp add: bit_ucast_iff bit_drop_bit_eq bit_word_of_int_iff)
qed

lemma low_half: "ucast (word_of_int P :: 128 word) = (word_of_int P :: u64)"
  by (rule bit_word_eqI) (simp add: bit_ucast_iff bit_word_of_int_iff)

lemma mulUnsigned64_int:
  "mulUnsigned64 x y = (word_of_int (uint x * uint y div 2 ^ 64), word_of_int (uint x * uint y))"
proof -
  have "(ucast x :: 128 word) * ucast y = word_of_int (uint x * uint y)" by simp
  then show ?thesis unfolding mulUnsigned64_def Let_def by (simp only: high_half low_half)
qed

lemma mulSigned64_int:
  "mulSigned64 x y = (word_of_int (sint x * sint y div 2 ^ 64), word_of_int (sint x * sint y))"
proof -
  have "(scast x :: 128 word) * scast y = word_of_int (sint x * sint y)" by simp
  then show ?thesis unfolding mulSigned64_def Let_def by (simp only: high_half low_half)
qed

lemma sint_split: "sint (x :: u64) = uint x - 2 ^ 64 * of_bool (sint x < 0)"
proof -
  have "sint x = signed_take_bit 63 (uint x)" by (simp add: sint_uint)
  moreover have lt: "uint x < 2 ^ 64" using unsigned_less [of x] by simp
  moreover have "take_bit 64 (uint x) = uint x"
    by (rule take_bit_int_eq_self) (use lt in simp_all)
  ultimately show ?thesis
    by (simp add: signed_take_bit_eq_take_bit_minus signed_take_bit_negative_iff)
qed

text \<open>The high half of the signed product from that of the unsigned one.\<close>

lemma signed_high:
  fixes x y :: u64
  defines "sa \<equiv> of_bool (sint x < 0) :: int" and "sb \<equiv> of_bool (sint y < 0) :: int"
  shows "(word_of_int (sint x * sint y div 2 ^ 64) :: u64) =
      word_of_int (uint x * uint y div 2 ^ 64) - word_of_int sa * y - word_of_int sb * x"
    and "(word_of_int (sint x * sint y) :: u64) = word_of_int (uint x * uint y)"
proof -
  have zero: "(18446744073709551616 :: u64) = 0" "(340282366920938463463374607431768211456 :: u64) = 0"
    by simp_all
  have "sint x * sint y = (uint x - 2 ^ 64 * sa) * (uint y - 2 ^ 64 * sb)"
    unfolding sa_def sb_def by (metis sint_split)
  also have "\<dots> = uint x * uint y + (- sa * uint y - sb * uint x + 2 ^ 64 * (sa * sb)) * 2 ^ 64"
    by (simp add: algebra_simps)
  finally have p: "sint x * sint y =
    uint x * uint y + (- sa * uint y - sb * uint x + 2 ^ 64 * (sa * sb)) * 2 ^ 64" .
  then have "sint x * sint y div 2 ^ 64 =
      uint x * uint y div 2 ^ 64 + (- sa * uint y - sb * uint x + 2 ^ 64 * (sa * sb))"
    by simp
  then show "(word_of_int (sint x * sint y div 2 ^ 64) :: u64) =
      word_of_int (uint x * uint y div 2 ^ 64) - word_of_int sa * y - word_of_int sb * x"
    by (simp add: zero)
  show "(word_of_int (sint x * sint y) :: u64) = word_of_int (uint x * uint y)"
    unfolding p by (simp add: zero)
qed

section \<open>The theorems\<close>

text \<open>
  C31: \<open>floorLog2\<close> and \<open>ceilLog2\<close> of a positive value of an 8-, 16-, 32- or 64-bit
  type return, without a failed assertion, the logarithm to base two rounded down and up.
\<close>

theorem log2_exact:
  assumes "0 < x" and "ts = 1 \<or> ts = 2 \<or> ts = 4 \<or> ts = 8" and "unat x < 2 ^ (8 * ts)"
  shows "\<exists>m c. floorLog2 ts x = Some m \<and> 2 ^ m \<le> unat x \<and> unat x < 2 ^ Suc m \<and>
    ceilLog2 ts x = Some c \<and> unat x \<le> 2 ^ c \<and> (\<forall>j. unat x \<le> 2 ^ j \<longrightarrow> c \<le> j)"
proof -
  obtain m where m: "floorLog2 ts x = Some m" "2 ^ m \<le> unat x" "unat x < 2 ^ Suc m"
    using floorLog2_bit [OF assms] unat_highest by blast
  have x: "x \<noteq> 0" using assms(1) by (simp add: word_gt_0)
  show ?thesis
  proof (cases "x = 1")
    case True
    then show ?thesis using m by (auto simp: ceilLog2_def)
  next
    case False
    have u: "unat (x - 1) = unat x - 1" using x by (simp add: unat_minus_one)
    have "0 < x - 1" using False by (simp add: word_gt_0)
    have "unat (x - 1) < 2 ^ (8 * ts)" using u assms(3) by linarith
    also have "(2 :: nat) ^ (8 * ts) \<le> 2 ^ (8 * max 4 ts)" by (rule power_increasing) simp_all
    finally have lt: "unat (x - 1) < 2 ^ (8 * max 4 ts)" .
    have ts: "max 4 ts = 1 \<or> max 4 ts = 2 \<or> max 4 ts = 4 \<or> max 4 ts = 8" using assms(2) by auto
    from floorLog2_bit [OF \<open>0 < x - 1\<close> ts lt]
    obtain n where n: "floorLog2 (max 4 ts) (x - 1) = Some n" "2 ^ n \<le> unat (x - 1)" "unat (x - 1) < 2 ^ Suc n"
      using unat_highest [of "x - 1"] by blast
    have "Suc n \<le> j" if "unat x \<le> 2 ^ j" for j
    proof -
      have "0 < unat x" using x by (simp add: unat_gt_0)
      then have "(2 :: nat) ^ n < 2 ^ j" using n(2) u that by linarith
      then show ?thesis by simp
    qed
    moreover have "unat x \<le> 2 ^ Suc n" using n(3) u by linarith
    ultimately show ?thesis using m n(1) assms(1) False by (auto simp: ceilLog2_def)
  qed
qed

theorem log2_exact_witness:
  "floorLog2 8 1000 = Some 9 \<and> ceilLog2 8 1000 = Some 10 \<and>
    (\<exists>m c. floorLog2 8 1000 = Some m \<and> ceilLog2 8 1000 = Some c \<and> (2 :: nat) ^ m \<le> 1000 \<and> (1000 :: nat) \<le> 2 ^ c)"
  using log2_exact [of 1000 8] by (auto simp: floorLog2_def ceilLog2_def logStep_def)

text \<open>
  C32: Rounding to a power of two: the functions abort exactly when the alignment is
  not a power of two; \<open>roundDown\<close> gives the largest multiple of the alignment that does not
  exceed the value, and \<open>roundUp\<close> the least one that is not below it, when that fits into
  64 bits.
\<close>

theorem rounding_exact:
  "(roundDown val align = None) = (\<nexists>k. k < 64 \<and> align = 2 ^ k) \<and>
   (roundUp val align = None) = (\<nexists>k. k < 64 \<and> align = 2 ^ k) \<and>
   (\<forall>k < 64. align = 2 ^ k \<longrightarrow>
     (\<exists>d. roundDown val align = Some d \<and> unat d = unat val div 2 ^ k * 2 ^ k) \<and>
     (unat val + 2 ^ k \<le> 2 ^ 64 \<longrightarrow>
       (\<exists>u. roundUp val align = Some u \<and> unat u = ceil_div (unat val) (2 ^ k) * 2 ^ k)))"
proof (intro conjI allI impI)
  have pw: "isPowerOf2 align \<longleftrightarrow> (\<exists>k. k < 64 \<and> align = 2 ^ k)" using isPowerOf2_iff [of align] by simp
  show "(roundDown val align = None) = (\<nexists>k. k < 64 \<and> align = 2 ^ k)"
    "(roundUp val align = None) = (\<nexists>k. k < 64 \<and> align = 2 ^ k)"
    unfolding pw [symmetric] by (cases "isPowerOf2 align"; simp add: roundDown_def roundUp_def Let_def)+
  fix k :: nat
  assume k: "k < 64" "align = 2 ^ k"
  have p: "isPowerOf2 align" unfolding pw using k by blast
  have msk: "align - 1 = mask k" using k(2) by (simp add: mask_eq_exp_minus_1)
  have "roundDown val align = Some (val AND NOT (mask k))"
    using p msk by (simp add: roundDown_def Let_def)
  then show "\<exists>d. roundDown val align = Some d \<and> unat d = unat val div 2 ^ k * 2 ^ k"
    by (simp only: and_not_mask option.inject ex_simps simp_thms)
  assume room: "unat val + 2 ^ k \<le> 2 ^ 64"
  have "unat (val + mask k) = unat val + 2 ^ k - 1"
    using room by (rule unat_add_mask)
  moreover have "roundUp val align = Some ((val + mask k) AND NOT (mask k))"
    using p msk by (simp add: roundUp_def Let_def)
  ultimately show "\<exists>u. roundUp val align = Some u \<and> unat u = ceil_div (unat val) (2 ^ k) * 2 ^ k"
    unfolding ceil_div_def by (metis and_not_mask)
qed

theorem rounding_exact_witness:
  "roundUp 1000 48 = None \<and> (\<exists>d u. roundDown 1000 64 = Some d \<and> unat d = 960 \<and> roundUp 1000 64 = Some u \<and> unat u = 1024)"
proof -
  have 48: "roundUp 1000 48 = None" by (simp add: roundUp_def isPowerOf2_def)
  have lt: "(6 :: nat) < 64" and e: "(64 :: u64) = 2 ^ 6" by simp_all
  note k6 = rounding_exact [of 1000 64, THEN conjunct2, THEN conjunct2, THEN spec, THEN mp, OF lt, THEN mp, OF e]
  obtain d where d: "roundDown 1000 64 = Some d" "unat d = unat (1000 :: u64) div 2 ^ 6 * 2 ^ 6"
    using k6 [THEN conjunct1] by blast
  have room: "unat (1000 :: u64) + 2 ^ 6 \<le> 2 ^ 64" by simp
  obtain u where "roundUp 1000 64 = Some u" "unat u = ceil_div (unat (1000 :: u64)) (2 ^ 6) * 2 ^ 6"
    using k6 [THEN conjunct2, THEN mp, OF room] by blast
  then show ?thesis using 48 d by (simp add: ceil_div_def)
qed

text \<open>
  C29: The product of two 64-bit numbers from 32-bit halves is exact: the high and the
  low result of \<open>mulUnsignedManual\<close> are the halves of the 128-bit product for every pair of
  factors, and both manual versions agree with the versions that use 128-bit integers.
\<close>

theorem wide_product_equiv:
  "unat (fst (mulUnsignedManual x y)) * 2 ^ 64 + unat (snd (mulUnsignedManual x y)) = unat x * unat y \<and>
   mulUnsignedManual x y = mulUnsigned64 x y \<and> mulSignedManual x y = mulSigned64 x y"
proof -
  have low: "snd (mulUnsignedManual x y) = x * y" by (simp add: mulUnsignedManual_def Let_def)
  then have "unat (snd (mulUnsignedManual x y)) = unat x * unat y mod 2 ^ 64"
    by (simp add: unat_word_ariths)
  then have exact: "unat (fst (mulUnsignedManual x y)) * 2 ^ 64 + unat (snd (mulUnsignedManual x y)) = unat x * unat y"
    by (simp only: mulUnsignedManual_nat div_mult_mod_eq)
  have "fst (mulUnsignedManual x y) = of_nat (unat (fst (mulUnsignedManual x y)))" by simp
  also have "\<dots> = of_nat (unat x * unat y div 2 ^ 64)" by (simp only: mulUnsignedManual_nat)
  also have "\<dots> = word_of_int (int (unat x * unat y div 2 ^ 64))" by (rule of_int_of_nat_eq [symmetric])
  also have "int (unat x * unat y div 2 ^ 64) = uint x * uint y div 2 ^ 64"
    by (simp only: uint_nat of_nat_mult zdiv_int of_nat_power of_nat_numeral)
  finally have "mulUnsignedManual x y = mulUnsigned64 x y"
    using low by (simp add: mulUnsigned64_int prod_eq_iff)
  moreover have "mulSignedManual x y = mulSigned64 x y"
    using signed_high [of x y]
    by (simp add: mulSignedManual_def mulUnsigned64_int mulSigned64_int)
  ultimately show ?thesis using exact by blast
qed

end
