(* ===== verification/AddrRange.thy ===== *)
theory AddrRange
  imports Bitfield
begin

text \<open>
  Address ranges of \<open>base/addr_range.hh\<close>: construction, interleaving by masks, the queries,
  and the exclusion of ranges. A range denotes a set of addresses, \<open>addrs\<close>; the lemmas
  describe every operation by that set. A \<open>fatal\<close>, a \<open>panic\<close>, a failed assertion and
  a shift by the width of its operand or more are \<open>None\<close>.
\<close>

unbundle bit_operations_syntax

section \<open>The code\<close>

record AddrRange =
  ar_start :: Addr
  ar_end :: Addr
  masks :: "Addr list"
  intlvMatch :: u8

definition interleaved :: "AddrRange \<Rightarrow> bool" where
  "interleaved r \<longleftrightarrow> length (masks r) > 0"

definition mergesWith :: "AddrRange \<Rightarrow> AddrRange \<Rightarrow> bool" where
  "mergesWith this r \<longleftrightarrow> ar_start r = ar_start this \<and> ar_end r = ar_end this \<and> masks r = masks this"

text \<open>\<open>1ULL << n\<close>\<close>

definition ull_shift :: "nat \<Rightarrow> u64 option" where
  "ull_shift n = do { check (n < 64); Some (push_bit n 1) }"

text \<open>The constructors.\<close>

definition defaultRange :: AddrRange where
  "defaultRange = \<lparr>ar_start = 1, ar_end = 0, masks = [], intlvMatch = 0\<rparr>"

definition maskRange :: "Addr \<Rightarrow> Addr \<Rightarrow> Addr list \<Rightarrow> u8 \<Rightarrow> AddrRange option" where
  "maskRange st en ms m =
     (if ms \<noteq> [] then do {
        stripe \<leftarrow> ull_shift (length ms);
        check (ucast m < stripe);
        Some \<lparr>ar_start = st, ar_end = en, masks = ms, intlvMatch = m\<rparr> }
      else Some \<lparr>ar_start = st, ar_end = en, masks = ms, intlvMatch = m\<rparr>)"

definition intlvMask :: "u8 \<Rightarrow> u8 \<Rightarrow> nat \<Rightarrow> Addr option" where
  "intlvMask high xor_high i = do {
     let bit1 = high - of_nat i;
     msk \<leftarrow> ull_shift (unat bit1);
     if xor_high \<noteq> 0 then do {
       let bit2 = xor_high - of_nat i;
       msk2 \<leftarrow> ull_shift (unat bit2);
       Some (msk OR msk2) }
     else Some msk }"

function intlvMasks :: "u8 \<Rightarrow> u8 \<Rightarrow> nat \<Rightarrow> nat \<Rightarrow> Addr list \<Rightarrow> Addr list option" where
  "intlvMasks high xor_high n i ms =
     (if i < n then do {
        msk \<leftarrow> intlvMask high xor_high i;
        intlvMasks high xor_high n (Suc i) (ms[n - i - 1 := msk]) }
      else Some ms)"
  by pat_completeness auto
termination by (relation "measure (\<lambda>(high, xor_high, n, i, ms). n - i)") auto

declare intlvMasks.simps [simp del]

text \<open>The bit-based constructor; the \<open>uint8_t\<close> operands of its comparisons are promoted to \<open>int\<close>.\<close>

definition bitRange :: "Addr \<Rightarrow> Addr \<Rightarrow> u8 \<Rightarrow> u8 \<Rightarrow> u8 \<Rightarrow> u8 \<Rightarrow> AddrRange option" where
  "bitRange st en high xor_high n m = do {
     (if n \<noteq> 0 then do { stripe \<leftarrow> ull_shift (unat n); check (ucast m < stripe) } else Some ());
     check (\<not> (n \<noteq> 0 \<and> xor_high \<noteq> 0 \<and>
        (if xor_high = high then True
         else if xor_high > high then uint xor_high - uint high < uint n
         else uint high - uint xor_high < uint n)));
     ms \<leftarrow> intlvMasks high xor_high (unat n) 0 (replicate (unat n) 0);
     Some \<lparr>ar_start = st, ar_end = en, masks = ms, intlvMatch = m\<rparr> }"

definition mkRange :: "Addr \<Rightarrow> Addr \<Rightarrow> AddrRange" where
  "mkRange st en = \<lparr>ar_start = st, ar_end = en, masks = [], intlvMatch = 0\<rparr>"

text \<open>The constructor that merges ranges, with its loop over them.\<close>

fun mergeLoop :: "AddrRange \<Rightarrow> u8 \<Rightarrow> AddrRange list \<Rightarrow> unit option" where
  "mergeLoop this m [] = Some ()"
| "mergeLoop this m (r # rs) = do {
     check (mergesWith this r);
     check (intlvMatch r = m);
     mergeLoop this (m + 1) rs }"

definition mergeRanges :: "AddrRange list \<Rightarrow> AddrRange option" where
  "mergeRanges rs = do {
     let this = (case rs of [] \<Rightarrow> defaultRange | r # _ \<Rightarrow> r);
     if length rs > 1 then do {
       stripe \<leftarrow> ull_shift (length (masks this));
       check (length rs = unat stripe);
       mergeLoop this 0 rs;
       Some (this\<lparr>masks := [], intlvMatch := 0\<rparr>) }
     else Some this }"

text \<open>The queries. \<open>combined_mask\<close> is an \<open>int\<close>.\<close>

definition size_ar :: "AddrRange \<Rightarrow> Addr option" where
  "size_ar r = do {
     check (length (masks r) < 64);
     Some (drop_bit (length (masks r)) (ar_end r - ar_start r)) }"

definition granularity :: "AddrRange \<Rightarrow> u64 option" where
  "granularity r =
     (if interleaved r then do {
        let combined_mask = foldl (\<lambda>c m. ucast ((scast c :: u64) OR m)) (0 :: u32) (masks r);
        let lowest_bit = ctz64 (scast combined_mask);
        ull_shift lowest_bit }
      else size_ar r)"

definition stripes :: "AddrRange \<Rightarrow> u32 option" where
  "stripes r = do { n \<leftarrow> ull_shift (length (masks r)); Some (ucast n) }"

definition valid :: "AddrRange \<Rightarrow> bool" where
  "valid r \<longleftrightarrow> ar_start r \<le> ar_end r"

text \<open>The selector of an address, computed in an \<open>int\<close>.\<close>

fun selLoop :: "Addr \<Rightarrow> nat \<Rightarrow> Addr list \<Rightarrow> u32 \<Rightarrow> u32 option" where
  "selLoop a i [] sel = Some sel"
| "selLoop a i (m # ms) sel = do {
     check (i < 32);
     selLoop a (Suc i) ms (sel OR push_bit i (of_nat (popCount (a AND m) mod 2))) }"

definition contains :: "AddrRange \<Rightarrow> Addr \<Rightarrow> bool option" where
  "contains r a =
     (if a \<ge> ar_start r \<and> a < ar_end r then do {
        sel \<leftarrow> selLoop a 0 (masks r) 0;
        Some (sel = ucast (intlvMatch r)) }
      else Some False)"

definition intersects :: "AddrRange \<Rightarrow> AddrRange \<Rightarrow> bool option" where
  "intersects this r =
     (if ar_start this \<ge> ar_end r \<or> ar_end this \<le> ar_start r then Some False
      else if \<not> interleaved this \<and> \<not> interleaved r then Some True
      else do {
        n \<leftarrow> size_ar r;
        if n = 1 then contains this (ar_start r)
        else if mergesWith this r then Some (intlvMatch this = intlvMatch r)
        else None })"

definition isSubset :: "AddrRange \<Rightarrow> AddrRange \<Rightarrow> bool option" where
  "isSubset this r = do {
     check (\<not> interleaved this);
     if interleaved r then do {
       c \<leftarrow> contains r (ar_start this);
       fits \<leftarrow> (if c then do { n \<leftarrow> size_ar this; g \<leftarrow> granularity r; Some (n \<le> g) }
               else Some False);
       if fits then
         if ar_start this = ar_end this - 1 then Some True else contains r (ar_end this - 1)
       else Some False }
     else if ar_end this \<le> ar_start this then Some (ar_start this \<ge> ar_start r \<and> ar_end r = 0)
     else if ar_end r \<le> ar_start r then Some (ar_start this \<ge> ar_start r)
     else Some (ar_start this \<ge> ar_start r \<and> ar_end this \<le> ar_end r) }"

text \<open>
  Removing and adding the interleaving bits. \<open>intlv_bit - i - 1\<close> is computed in
  \<open>unsigned\<close>; \<open>~(1 << lsb)\<close> is an \<open>int\<close> that is then converted to \<open>Addr\<close>.
\<close>

fun removeLoop :: "u32 \<Rightarrow> nat list \<Rightarrow> Addr \<Rightarrow> Addr option" where
  "removeLoop i [] a = Some a"
| "removeLoop i (intlv_bit # bs) a = do {
     a \<leftarrow> (if intlv_bit > 0 then insertBits (drop_bit 1 a) (of_nat intlv_bit - i - 1) 0 a
          else Some (drop_bit 1 a));
     removeLoop (i + 1) bs a }"

definition removeIntlvBits :: "AddrRange \<Rightarrow> Addr \<Rightarrow> Addr option" where
  "removeIntlvBits r a =
     (if \<not> interleaved r then Some a else removeLoop 0 (sort (map ctz64 (masks r))) a)"

fun addLoop :: "nat list \<Rightarrow> Addr \<Rightarrow> Addr option" where
  "addLoop [] a = Some a"
| "addLoop (intlv_bit # bs) a = do {
     a \<leftarrow> (if intlv_bit > 0 then insertBits (push_bit 1 a) (of_nat intlv_bit - 1) 0 a
          else Some (push_bit 1 a));
     addLoop bs a }"

fun selectLoop :: "u8 \<Rightarrow> nat \<Rightarrow> Addr list \<Rightarrow> Addr \<Rightarrow> Addr option" where
  "selectLoop m i [] a = Some a"
| "selectLoop m i (msk # ms) a = do {
     let lsb = ctz64 msk;
     check (i < 32);
     intlv_bit \<leftarrow> bits_at (ucast m) (of_nat i);
     check (lsb < 32);
     let masked = a AND msk AND scast (NOT (push_bit lsb 1 :: u32));
     a \<leftarrow> insertBit a (of_nat lsb) (intlv_bit XOR of_nat (popCount masked));
     selectLoop m (Suc i) ms a }"

definition addIntlvBits :: "AddrRange \<Rightarrow> Addr \<Rightarrow> Addr option" where
  "addIntlvBits r a =
     (if \<not> interleaved r then Some a
      else do {
        a \<leftarrow> addLoop (sort (map ctz64 (masks r))) a;
        selectLoop (intlvMatch r) 0 (masks r) a })"

definition getOffset :: "AddrRange \<Rightarrow> Addr \<Rightarrow> Addr option" where
  "getOffset r a =
     (if \<not> (a \<ge> ar_start r \<and> a < ar_end r) then Some (- 1)
      else if interleaved r then do {
        x \<leftarrow> removeIntlvBits r a;
        y \<leftarrow> removeIntlvBits r (ar_start r);
        Some (x - y) }
      else Some (a - ar_start r))"

text \<open>\<open>operator<\<close>, and the stable sort of \<open>std::list\<close> by it.\<close>

definition rangeLess :: "AddrRange \<Rightarrow> AddrRange \<Rightarrow> bool" where
  "rangeLess this r =
     (if ar_start this \<noteq> ar_start r then ar_start this < ar_start r
      else if interleaved this \<and> interleaved r then intlvMatch this < intlvMatch r
      else interleaved this)"

fun insertRange :: "AddrRange \<Rightarrow> AddrRange list \<Rightarrow> AddrRange list" where
  "insertRange r [] = [r]"
| "insertRange r (x # xs) = (if rangeLess x r then x # insertRange r xs else r # x # xs)"

definition sortRanges :: "AddrRange list \<Rightarrow> AddrRange list" where
  "sortRanges rs = foldr insertRange rs []"

fun excludeLoop :: "AddrRange \<Rightarrow> Addr \<Rightarrow> AddrRange list \<Rightarrow> AddrRange list \<Rightarrow> AddrRange list option" where
  "excludeLoop this next_start ranges [] =
     Some (if next_start < ar_end this then ranges @ [mkRange next_start (ar_end this)] else ranges)"
| "excludeLoop this next_start ranges (e # es) = do {
     check (\<not> interleaved e);
     b \<leftarrow> intersects this e;
     if \<not> b then excludeLoop this next_start ranges es
     else if ar_start e \<le> next_start then
       if ar_end e < ar_end this then
         excludeLoop this (if next_start < ar_end e then ar_end e else next_start) ranges es
       else Some ranges
     else
       let ranges = ranges @ [mkRange next_start (ar_start e)] in
       if ar_end e < ar_end this then excludeLoop this (ar_end e) ranges es
       else Some ranges }"

definition exclude :: "AddrRange \<Rightarrow> AddrRange list \<Rightarrow> AddrRange list option" where
  "exclude this exclude_ranges = do {
     check (\<not> interleaved this);
     excludeLoop this (ar_start this) [] (sortRanges exclude_ranges) }"

definition excludeRange :: "AddrRange \<Rightarrow> AddrRange \<Rightarrow> AddrRange list option" where
  "excludeRange this excluded_range = exclude this [excluded_range]"

definition rangeEq :: "AddrRange \<Rightarrow> AddrRange \<Rightarrow> bool" where
  "rangeEq this r \<longleftrightarrow>
     (if ar_start this \<noteq> ar_start r then False
      else if ar_end this \<noteq> ar_end r then False
      else if masks this \<noteq> masks r then False
      else if intlvMatch this \<noteq> intlvMatch r then False
      else True)"

definition rangeNeq :: "AddrRange \<Rightarrow> AddrRange \<Rightarrow> bool" where
  "rangeNeq this r \<longleftrightarrow> \<not> rangeEq this r"

definition rangeAnd :: "AddrRange \<Rightarrow> AddrRange \<Rightarrow> AddrRange option" where
  "rangeAnd this r = do {
     check (\<not> (interleaved this \<or> interleaved r));
     let st = max (ar_start this) (ar_start r);
     let en = min (ar_end this) (ar_end r);
     Some (if en \<le> st then mkRange 0 0 else mkRange st en) }"

text \<open>The operators on a range and on lists of ranges.\<close>

definition rangeMinusList :: "AddrRange \<Rightarrow> AddrRange list \<Rightarrow> AddrRange list option" where
  "rangeMinusList rng to_exclude = exclude rng to_exclude"

definition rangeMinusRange :: "AddrRange \<Rightarrow> AddrRange \<Rightarrow> AddrRange list option" where
  "rangeMinusRange rng to_exclude = excludeRange rng to_exclude"

fun excludeEach :: "AddrRange list \<Rightarrow> AddrRange list \<Rightarrow> AddrRange list \<Rightarrow> AddrRange list option" where
  "excludeEach to_exclude ret [] = Some ret"
| "excludeEach to_exclude ret (rng # base) = do {
     rs \<leftarrow> exclude rng to_exclude;
     excludeEach to_exclude (ret @ rs) base }"

definition excludeList :: "AddrRange list \<Rightarrow> AddrRange list \<Rightarrow> AddrRange list option" where
  "excludeList base to_exclude = excludeEach (sortRanges to_exclude) [] base"

definition excludeListRange :: "AddrRange list \<Rightarrow> AddrRange \<Rightarrow> AddrRange list option" where
  "excludeListRange base to_exclude = excludeList base [to_exclude]"

definition listMinusList :: "AddrRange list \<Rightarrow> AddrRange list \<Rightarrow> AddrRange list option" where
  "listMinusList base to_exclude = excludeList base to_exclude"

definition listMinusRange :: "AddrRange list \<Rightarrow> AddrRange \<Rightarrow> AddrRange list option" where
  "listMinusRange base to_exclude = excludeListRange base to_exclude"

definition RangeEx :: "Addr \<Rightarrow> Addr \<Rightarrow> AddrRange" where
  "RangeEx st en = mkRange st en"

definition RangeIn :: "Addr \<Rightarrow> Addr \<Rightarrow> AddrRange" where
  "RangeIn st en = mkRange st (en + 1)"

definition RangeSize :: "Addr \<Rightarrow> Addr \<Rightarrow> AddrRange" where
  "RangeSize st sz = mkRange st (st + sz)"

section \<open>The addresses of a range\<close>

text \<open>The interleaving bits of an address are the parities of the masked address.\<close>

definition parity :: "u64 \<Rightarrow> bool" where
  "parity w = odd (popCount w)"

definition selects :: "Addr list \<Rightarrow> u8 \<Rightarrow> Addr \<Rightarrow> bool" where
  "selects ms m a \<longleftrightarrow> (\<forall>i < length ms. parity (a AND ms ! i) = bit m i) \<and> take_bit (length ms) m = m"

definition addrs :: "AddrRange \<Rightarrow> Addr set" where
  "addrs r = {a. ar_start r \<le> a \<and> a < ar_end r \<and> selects (masks r) (intlvMatch r) a}"

definition plain :: "AddrRange \<Rightarrow> bool" where
  "plain r \<longleftrightarrow> masks r = [] \<and> intlvMatch r = 0"

lemma selLoop_bits:
  assumes "i + length ms \<le> 32"
  shows "\<exists>s. selLoop a i ms sel = Some s \<and>
    (\<forall>k. bit s k = (bit sel k \<or> (i \<le> k \<and> k < i + length ms \<and> parity (a AND ms ! (k - i)))))"
  using assms
proof (induction ms arbitrary: i sel)
  case Nil
  then show ?case by auto
next
  case (Cons m ms)
  let ?sel = "sel OR push_bit i (of_nat (popCount (a AND m) mod 2))"
  have i: "i < 32" using Cons.prems by simp
  have "of_nat (popCount (a AND m) mod 2) = (of_bool (parity (a AND m)) :: u32)"
    by (simp add: parity_def mod2_eq_if)
  then have b: "bit ?sel k = (bit sel k \<or> (k = i \<and> parity (a AND m)))" for k
    using i by (auto simp: bit_or_iff bit_push_bit_iff bit_of_bool_iff)
  obtain s where s: "selLoop a (Suc i) ms ?sel = Some s"
    "\<forall>k. bit s k = (bit ?sel k \<or> (Suc i \<le> k \<and> k < Suc i + length ms \<and> parity (a AND ms ! (k - Suc i))))"
    using Cons.IH [of "Suc i" ?sel] Cons.prems by auto
  have "bit s k = (bit sel k \<or> (i \<le> k \<and> k < i + length (m # ms) \<and> parity (a AND (m # ms) ! (k - i))))" for k
    unfolding s(2) [rule_format] b by (cases "k = i") (auto simp: nth_Cons' Suc_diff_Suc not_less_eq_eq)
  then show ?case using s(1) i by auto
qed

lemma contains_addrs:
  assumes "length (masks r) \<le> 32"
  shows "contains r a = Some (a \<in> addrs r)"
proof -
  obtain s where s: "selLoop a 0 (masks r) 0 = Some s"
    "\<forall>k. bit s k = (k < length (masks r) \<and> parity (a AND masks r ! k))"
    using selLoop_bits [of 0 "masks r" a 0] assms by auto
  have "s = ucast (intlvMatch r) \<longleftrightarrow> selects (masks r) (intlvMatch r) a"
  proof
    assume "s = ucast (intlvMatch r)"
    then have e: "bit s k = bit (intlvMatch r) k" for k
      by (auto simp: bit_ucast_iff dest: bit_imp_le_length)
    show "selects (masks r) (intlvMatch r) a"
      unfolding selects_def by (intro conjI allI impI bit_word_eqI) (auto simp: bit_take_bit_iff s(2) simp flip: e)
  next
    assume sel: "selects (masks r) (intlvMatch r) a"
    have "bit (intlvMatch r) k = (k < length (masks r) \<and> parity (a AND masks r ! k))" for k
    proof -
      have "bit (intlvMatch r) k = bit (take_bit (length (masks r)) (intlvMatch r)) k"
        using sel by (simp add: selects_def)
      then show ?thesis using sel by (auto simp: bit_take_bit_iff selects_def)
    qed
    then show "s = ucast (intlvMatch r)"
      by (intro bit_word_eqI) (auto simp: s(2) bit_ucast_iff dest: bit_imp_le_length)
  qed
  then show ?thesis using s(1) by (auto simp: contains_def addrs_def)
qed

lemma selects_Nil [simp]: "selects [] m a \<longleftrightarrow> m = 0"
  by (auto simp: selects_def)

lemma addrs_plain: "plain r \<Longrightarrow> addrs r = {ar_start r ..< ar_end r}"
  by (auto simp: addrs_def plain_def)

lemma plain_mkRange [simp]: "plain (mkRange s e)"
  by (simp add: plain_def mkRange_def)

lemma mkRange_sel [simp]: "ar_start (mkRange s e) = s" "ar_end (mkRange s e) = e" "masks (mkRange s e) = []"
  by (simp_all add: mkRange_def)

lemma addrs_mkRange [simp]: "addrs (mkRange s e) = {s ..< e}"
  by (simp add: addrs_plain)

lemma plain_interleaved [simp]: "plain r \<Longrightarrow> \<not> interleaved r"
  by (simp add: plain_def interleaved_def)

lemma contains_plain: "plain r \<Longrightarrow> contains r a = Some (a \<in> addrs r)"
  by (rule contains_addrs) (simp add: plain_def)

section \<open>Sorting and excluding\<close>

lemma set_insertRange [simp]: "set (insertRange r xs) = insert r (set xs)"
  by (induction xs) auto

lemma set_sortRanges [simp]: "set (sortRanges rs) = set rs"
  unfolding sortRanges_def by (induction rs) auto

lemma rangeLess_plain: "\<not> interleaved x \<Longrightarrow> rangeLess x y \<longleftrightarrow> ar_start x < ar_start y"
  by (auto simp: rangeLess_def)

lemma sorted_insertRange:
  assumes "sorted (map ar_start xs)" and "\<forall>x \<in> set xs. \<not> interleaved x"
  shows "sorted (map ar_start (insertRange r xs))"
  using assms by (induction xs) (auto simp: rangeLess_plain)

lemma sorted_sortRanges:
  "\<forall>x \<in> set rs. \<not> interleaved x \<Longrightarrow> sorted (map ar_start (sortRanges rs))"
proof (induction rs)
  case Nil
  then show ?case by (simp add: sortRanges_def)
next
  case (Cons r rs)
  then have "sorted (map ar_start (insertRange r (sortRanges rs)))" by (intro sorted_insertRange) auto
  then show ?case by (simp add: sortRanges_def)
qed

definition segments :: "AddrRange list \<Rightarrow> bool" where
  "segments rs \<longleftrightarrow> (\<forall>r \<in> set rs. plain r \<and> ar_start r < ar_end r) \<and>
     sorted_wrt (\<lambda>x y. ar_end x \<le> ar_start y) rs"

lemma segments_snoc:
  assumes "segments rs" and "\<forall>r \<in> set rs. ar_end r \<le> s" and "s < e"
  shows "segments (rs @ [mkRange s e])"
  using assms by (auto simp: segments_def sorted_wrt_append)

lemma intersects_plain:
  "plain r \<Longrightarrow> plain s \<Longrightarrow>
    intersects r s = Some (ar_start r < ar_end s \<and> ar_start s < ar_end r)"
  by (auto simp: intersects_def)

lemma excludeLoop_addrs:
  assumes "plain this" and "\<forall>e \<in> set es. plain e \<and> valid e" and "sorted (map ar_start es)"
    and "ar_start this \<le> ns" and "segments acc" and "\<forall>r \<in> set acc. ar_end r \<le> ns"
  shows "\<exists>rs. excludeLoop this ns acc es = Some rs \<and> segments rs \<and>
    \<Union> (addrs ` set rs) = \<Union> (addrs ` set acc) \<union> ({ns ..< ar_end this} - \<Union> (addrs ` set es))"
  using assms(2-)
proof (induction es arbitrary: ns acc)
  case Nil
  then show ?case by (auto intro: segments_snoc)
next
  case (Cons e es)
  have e: "plain e" "ar_start e \<le> ar_end e" "addrs e = {ar_start e ..< ar_end e}"
    using Cons.prems(1) by (auto simp: valid_def addrs_plain)
  have later: "ar_start e \<le> ar_start x" "addrs x = {ar_start x ..< ar_end x}" if "x \<in> set es" for x
    using Cons.prems(1,2) that by (auto simp: addrs_plain)
  have es: "\<forall>e \<in> set es. plain e \<and> valid e" "sorted (map ar_start es)" using Cons.prems(1,2) by auto
  note IH = Cons.IH [OF es]
  show ?case
  proof (cases "ar_start this < ar_end e \<and> ar_start e < ar_end this")
    case False
    obtain rs where "excludeLoop this ns acc es = Some rs" "segments rs"
      "\<Union> (addrs ` set rs) = \<Union> (addrs ` set acc) \<union> ({ns ..< ar_end this} - \<Union> (addrs ` set es))"
      using IH [OF Cons.prems(3-5)] by blast
    moreover have "{ns ..< ar_end this} \<inter> addrs e = {}" using False e(3) Cons.prems(3) by auto
    ultimately show ?thesis using False e(1) assms(1) by (auto simp: intersects_plain)
  next
    case meet: True
    show ?thesis
    proof (cases "ar_start e \<le> ns")
      case True
      let ?ns = "if ns < ar_end e then ar_end e else ns"
      show ?thesis
      proof (cases "ar_end e < ar_end this")
        case inside: True
        have "ar_start this \<le> ?ns" "\<forall>r \<in> set acc. ar_end r \<le> ?ns" using Cons.prems(3,5) by auto
        then obtain rs where "excludeLoop this ?ns acc es = Some rs" "segments rs"
          "\<Union> (addrs ` set rs) = \<Union> (addrs ` set acc) \<union> ({?ns ..< ar_end this} - \<Union> (addrs ` set es))"
          using IH [of ?ns acc] Cons.prems(4) by blast
        moreover have "{ns ..< ar_end this} - addrs e = {?ns ..< ar_end this}" using True e(3) by auto
        ultimately show ?thesis using meet True inside e(1) assms(1) by (auto simp: intersects_plain)
      next
        case False
        then have "{ns ..< ar_end this} - addrs e = {}" using True e(3) by auto
        then show ?thesis using meet True False e(1) assms(1) Cons.prems(4) by (auto simp: intersects_plain)
      qed
    next
      case False
      let ?acc = "acc @ [mkRange ns (ar_start e)]"
      have acc: "segments ?acc" using segments_snoc [OF Cons.prems(4,5)] False by auto
      have kept: "{ns ..< ar_start e} \<inter> addrs x = {}" if "x \<in> set es" for x using later [OF that] by auto
      have split: "{ns ..< ar_end this} - addrs e = {ns ..< ar_start e} \<union> {ar_end e ..< ar_end this}"
        using False meet e(2,3) by auto
      show ?thesis
      proof (cases "ar_end e < ar_end this")
        case inside: True
        have "ar_start this \<le> ar_end e" "\<forall>r \<in> set ?acc. ar_end r \<le> ar_end e"
          using Cons.prems(3,5) False e(2) by auto
        then obtain rs where rs: "excludeLoop this (ar_end e) ?acc es = Some rs" "segments rs"
          "\<Union> (addrs ` set rs) = \<Union> (addrs ` set ?acc) \<union> ({ar_end e ..< ar_end this} - \<Union> (addrs ` set es))"
          using IH [of "ar_end e" ?acc] acc by blast
        have "excludeLoop this ns acc (e # es) = Some rs"
          using rs(1) meet False inside e(1) assms(1) by (simp add: intersects_plain Let_def)
        moreover have "{ns ..< ar_end this} - \<Union> (addrs ` set (e # es)) =
            {ns ..< ar_start e} \<union> ({ar_end e ..< ar_end this} - \<Union> (addrs ` set es))"
          using split kept by auto
        ultimately show ?thesis using rs(2,3) by auto
      next
        case outside: False
        then have "excludeLoop this ns acc (e # es) = Some ?acc"
          using meet False e(1) assms(1) by (simp add: intersects_plain Let_def)
        moreover have "{ns ..< ar_end this} - \<Union> (addrs ` set (e # es)) = {ns ..< ar_start e}"
          using split kept outside by auto
        ultimately show ?thesis using acc by auto
      qed
    qed
  qed
qed

lemma exclude_addrs:
  assumes "plain r" and "\<forall>e \<in> set es. plain e \<and> valid e"
  shows "\<exists>rs. exclude r es = Some rs \<and> segments rs \<and>
    \<Union> (addrs ` set rs) = addrs r - \<Union> (addrs ` set es)"
proof -
  have s: "\<forall>e \<in> set (sortRanges es). plain e \<and> valid e" "sorted (map ar_start (sortRanges es))"
    using assms(2) by (auto intro!: sorted_sortRanges)
  obtain rs where "excludeLoop r (ar_start r) [] (sortRanges es) = Some rs" "segments rs"
    "\<Union> (addrs ` set rs) = {ar_start r ..< ar_end r} - \<Union> (addrs ` set es)"
    using excludeLoop_addrs [OF assms(1) s, of "ar_start r" "[]"] by (auto simp: segments_def)
  then show ?thesis using assms(1) by (simp add: exclude_def addrs_plain [OF assms(1)])
qed

lemma excludeEach_addrs:
  assumes "\<forall>r \<in> set base. plain r" and "\<forall>e \<in> set es. plain e \<and> valid e"
  shows "\<exists>rs. excludeEach es ret base = Some (ret @ rs) \<and> (\<forall>x \<in> set rs. plain x) \<and>
    \<Union> (addrs ` set rs) = \<Union> (addrs ` set base) - \<Union> (addrs ` set es)"
  using assms(1)
proof (induction base arbitrary: ret)
  case Nil
  then show ?case by simp
next
  case (Cons r base)
  obtain xs where xs: "exclude r es = Some xs" "segments xs"
    "\<Union> (addrs ` set xs) = addrs r - \<Union> (addrs ` set es)"
    using exclude_addrs [of r es] Cons.prems assms(2) by auto
  obtain rs where rs: "excludeEach es (ret @ xs) base = Some ((ret @ xs) @ rs)" "\<forall>x \<in> set rs. plain x"
    "\<Union> (addrs ` set rs) = \<Union> (addrs ` set base) - \<Union> (addrs ` set es)"
    using Cons.IH [of "ret @ xs"] Cons.prems by auto
  have "\<Union> (addrs ` set (xs @ rs)) = \<Union> (addrs ` set (r # base)) - \<Union> (addrs ` set es)"
    using xs(3) rs(3) by auto
  moreover have "\<forall>x \<in> set (xs @ rs). plain x" using xs(2) rs(2) by (auto simp: segments_def)
  ultimately show ?case using xs(1) rs(1) by (intro exI [of _ "xs @ rs"]) simp
qed

section \<open>Interleaved ranges\<close>

lemma selects_unique: "selects ms m a \<Longrightarrow> selects ms m' a \<Longrightarrow> m = m'"
proof (rule bit_word_eqI)
  fix i
  assume s: "selects ms m a" "selects ms m' a"
  have "bit m i = (i < length ms \<and> bit m i)" "bit m' i = (i < length ms \<and> bit m' i)"
    using s bit_take_bit_iff [of "length ms" m i] bit_take_bit_iff [of "length ms" m' i]
    by (auto simp: selects_def)
  then show "bit m i = bit m' i" using s by (auto simp: selects_def)
qed

lemma selects_ex:
  assumes "length ms \<le> 8"
  shows "\<exists>m. selects ms m a \<and> unat m < 2 ^ length ms"
proof -
  define m :: u8 where "m = horner_sum of_bool 2 (map (\<lambda>x. parity (a AND x)) ms)"
  have b: "bit m i = (i < length ms \<and> parity (a AND ms ! i))" for i
    using assms by (auto simp: m_def bit_horner_sum_bit_word_iff)
  have t: "take_bit (length ms) m = m" by (rule bit_word_eqI) (auto simp: bit_take_bit_iff b)
  have "unat (take_bit (length ms) m) = take_bit (length ms) (unat m)" by (rule unsigned_take_bit_eq)
  then have "unat m < 2 ^ length ms" using take_bit_nat_less_exp [of "length ms" "unat m"] t by simp
  then show ?thesis using t b by (auto simp: selects_def)
qed

lemma mergeLoop_nth:
  assumes "mergeLoop this m rs = Some ()" and "k < length rs"
  shows "mergesWith this (rs ! k) \<and> intlvMatch (rs ! k) = m + of_nat k"
  using assms
proof (induction rs arbitrary: m k)
  case Nil
  then show ?case by simp
next
  case (Cons r rs)
  then show ?case by (cases k) (auto simp: abort_simps add.assoc)
qed

lemma popCount_card: "popCount w = card {i. bit w i}"
proof -
  have "{i. bit w i} = set (filter (bit w) [0..<64])" by (auto dest: bit_imp_le_length)
  then show ?thesis using distinct_card [of "filter (bit w) [0..<64]"] by (simp add: popCount_def)
qed

lemma parity_single: "parity (a AND 2 ^ p) = bit a p"
proof -
  have "{i. bit (a AND 2 ^ p) i} = (if bit a p then {p} else {})"
    by (auto simp: bit_simps dest: bit_imp_le_length)
  then show ?thesis by (simp add: parity_def popCount_card)
qed

lemma parity_pair:
  assumes "p \<noteq> q"
  shows "parity (a AND (2 ^ p OR 2 ^ q)) = (bit a p \<noteq> bit a q)"
proof -
  have "{i. bit (a AND (2 ^ p OR 2 ^ q)) i} =
      (if bit a p then {p} else {}) \<union> (if bit a q then {q} else {})"
    by (auto simp: bit_simps dest: bit_imp_le_length)
  then show ?thesis using assms by (simp add: parity_def popCount_card)
qed

lemma intlvMasks_nth:
  assumes "intlvMasks hi xr n i ms = Some ms'" and "length ms = n"
  shows "length ms' = n \<and> (\<forall>j. i \<le> j \<and> j < n \<longrightarrow> intlvMask hi xr j = Some (ms' ! (n - 1 - j))) \<and>
    (\<forall>k. n - i \<le> k \<and> k < n \<longrightarrow> ms' ! k = ms ! k)"
  using assms
proof (induction hi xr n i ms rule: intlvMasks.induct)
  case (1 hi xr n i ms)
  show ?case
  proof (cases "i < n")
    case True
    obtain m where m: "intlvMask hi xr i = Some m"
      "intlvMasks hi xr n (Suc i) (ms[n - i - 1 := m]) = Some ms'"
      using "1.prems"(1) True by (subst (asm) intlvMasks.simps) (auto elim: bind_eq_SomeD)
    have IH: "length ms' = n" "\<forall>j. Suc i \<le> j \<and> j < n \<longrightarrow> intlvMask hi xr j = Some (ms' ! (n - 1 - j))"
      "\<forall>k. n - Suc i \<le> k \<and> k < n \<longrightarrow> ms' ! k = ms[n - i - 1 := m] ! k"
      using "1.IH" [OF True m] "1.prems"(2) by auto
    have "ms' ! (n - 1 - i) = m" using IH(3) True "1.prems"(2) by simp
    then have "intlvMask hi xr j = Some (ms' ! (n - 1 - j))" if "i \<le> j" "j < n" for j
      using IH(2) m(1) that by (cases "j = i") auto
    moreover have "ms' ! k = ms ! k" if "n - i \<le> k" "k < n" for k
    proof -
      have "k \<noteq> n - i - 1" "n - Suc i \<le> k" using that True by arith+
      then show ?thesis using IH(3) that by simp
    qed
    ultimately show ?thesis using IH(1) by blast
  next
    case False
    then have "intlvMasks hi xr n i ms = Some ms" by (subst intlvMasks.simps) simp
    then show ?thesis using "1.prems" False by auto
  qed
qed

lemma ull_shift_Some [simp]: "ull_shift n = Some w \<longleftrightarrow> n < 64 \<and> w = 2 ^ n"
  by (auto simp: ull_shift_def abort_simps)

lemma unat_high_bit:
  assumes "unat (hi - of_nat j :: u8) < 64" and "j < 64"
  shows "j \<le> unat hi \<and> unat (hi - of_nat j :: u8) = unat hi - j"
proof -
  have u: "unat (of_nat j :: u8) = j" using assms(2) by (simp add: unat_of_nat)
  have "unat hi < 256" using unsigned_less [of hi] by simp
  then show ?thesis using assms unat_sub_if' [of hi "of_nat j"] u by (auto split: if_splits)
qed

lemma unat_pow2:
  assumes "n < 64"
  shows "unat (2 ^ n :: u64) = 2 ^ n"
proof -
  have "(2 :: nat) ^ n < 2 ^ 64" using assms by (rule power_strict_increasing) simp
  then show ?thesis using unat_of_nat [of "2 ^ n", where ?'a = 64] by simp
qed

lemma intlvMask_parity:
  assumes "intlvMask hi xr j = Some m" and "j < 64" and "xr \<noteq> 0 \<longrightarrow> hi \<noteq> xr"
  shows "j \<le> unat hi \<and> (xr \<noteq> 0 \<longrightarrow> j \<le> unat xr) \<and>
    parity (a AND m) = (bit a (unat hi - j) \<noteq> (xr \<noteq> 0 \<and> bit a (unat xr - j)))"
proof (cases "xr = 0")
  case True
  then have "unat (hi - of_nat j) < 64" "m = 2 ^ unat (hi - of_nat j)"
    using assms(1) by (auto simp: intlvMask_def Let_def Option.bind_eq_Some_conv)
  then show ?thesis using True unat_high_bit [OF _ assms(2)] by (simp add: parity_single)
next
  case False
  then have m: "unat (hi - of_nat j) < 64" "unat (xr - of_nat j) < 64"
    "m = 2 ^ unat (hi - of_nat j) OR 2 ^ unat (xr - of_nat j)"
    using assms(1) by (auto simp: intlvMask_def Let_def Option.bind_eq_Some_conv)
  note hb = unat_high_bit [OF m(1) assms(2)] and xb = unat_high_bit [OF m(2) assms(2)]
  have "unat hi \<noteq> unat xr" using assms(3) False unsigned_word_eqI by blast
  then have "unat hi - j \<noteq> unat xr - j" using hb xb by linarith
  then show ?thesis using False hb xb m(3) by (simp add: parity_pair)
qed

section \<open>Subsets\<close>

lemma bit_int_addr:
  fixes c :: u32
  shows "i < 32 \<Longrightarrow> bit (scast c :: u64) i = bit c i"
    and "32 \<le> i \<Longrightarrow> i < 64 \<Longrightarrow> bit (scast c :: u64) i = bit c 31"
  by (cases "i = 31"; auto simp: bit_simps min_def)+

lemma unat_pred:
  assumes "(x :: u64) < e"
  shows "unat (e - 1) = unat e - 1" and "unat x \<le> unat e - 1" and "0 < unat e"
proof -
  have lt: "unat x < unat e" using assms by (simp add: word_less_nat_alt)
  then have "e \<noteq> 0" by auto
  then show "unat (e - 1) = unat e - 1" by (rule unat_minus_one)
  show "unat x \<le> unat e - 1" "0 < unat e" using lt by linarith+
qed

lemma combined_mask_bit:
  assumes "i < 32"
  shows "bit (foldl (\<lambda>c m. ucast ((scast c :: u64) OR m)) (c :: u32) ms) i \<longleftrightarrow>
    bit c i \<or> (\<exists>m \<in> set ms. bit m i)"
proof (induction ms arbitrary: c)
  case (Cons m ms)
  have "bit (ucast ((scast c :: u64) OR m) :: u32) i \<longleftrightarrow> bit c i \<or> bit m i"
    using assms by (simp add: bit_ucast_iff bit_or_iff bit_int_addr)
  then show ?case using Cons.IH by auto
qed simp

lemma granularity_low:
  assumes "granularity r = Some g" and "interleaved r"
  obtains n where "n < 64" "g = 2 ^ n" "\<forall>m \<in> set (masks r). \<forall>i. bit m i \<longrightarrow> n \<le> i"
proof -
  let ?c = "foldl (\<lambda>c m. ucast ((scast c :: u64) OR m)) (0 :: u32) (masks r)"
  let ?n = "ctz64 (scast ?c)"
  have n: "?n < 64" "g = 2 ^ ?n"
    using assms by (auto simp: granularity_def Let_def ull_shift_def push_bit_eq_mult split: bind_splits)
  then have "(scast ?c :: u64) \<noteq> 0" by (auto simp: ctz64_def)
  then obtain l where l: "bit (scast ?c :: u64) l" "\<forall>i < l. \<not> bit (scast ?c :: u64) i" "?n = l"
    using lowest_bit [of "scast ?c :: u64"] by (auto simp: ctz64_def)
  have "?n \<le> i" if "m \<in> set (masks r)" "bit m i" for m i
  proof (rule ccontr)
    assume "\<not> ?n \<le> i"
    then have i: "i < l" using l(3) by simp
    have "l < 64" using n(1) l(3) by simp
    have "\<not> bit (scast ?c :: u64) i" using l(2) i by blast
    moreover have "bit (scast ?c :: u64) i" if "i < 32"
      using combined_mask_bit [OF that] \<open>m \<in> _\<close> \<open>bit m i\<close> that by (auto simp: bit_int_addr)
    ultimately have "32 \<le> i" by force
    then have "bit (scast ?c :: u64) 31 = bit (scast ?c :: u64) l"
      using i \<open>l < 64\<close> by (simp add: bit_int_addr)
    then show False using l(1,2) i \<open>32 \<le> i\<close> by auto
  qed
  with n show ?thesis using that by blast
qed

lemma selects_granule:
  assumes "\<forall>m \<in> set ms. \<forall>i. bit m i \<longrightarrow> n \<le> i" and "drop_bit n a = drop_bit n b"
  shows "selects ms v a = selects ms v b"
proof -
  have "a AND m = b AND m" if "m \<in> set ms" for m
  proof (rule bit_word_eqI)
    fix i
    have "bit a i = bit b i" if "n \<le> i"
      using arg_cong [OF assms(2), of "\<lambda>w. bit w (i - n)"] that by (simp add: bit_drop_bit_eq)
    then show "bit (a AND m) i = bit (b AND m) i"
      using assms(1) that by (auto simp: bit_and_iff)
  qed
  then show ?thesis by (simp add: selects_def)
qed

lemma granule_cover:
  assumes "s \<le> a" and "a \<le> e" and "unat e < unat s + 2 ^ n"
  shows "drop_bit n a = drop_bit n s \<or> drop_bit n a = drop_bit n (e :: u64)"
proof -
  have o: "unat s \<le> unat a" "unat a \<le> unat e" using assms by (simp_all add: word_le_nat_alt)
  have "unat s div 2 ^ n \<le> unat a div 2 ^ n" "unat a div 2 ^ n \<le> unat e div 2 ^ n"
    using o by (simp_all add: div_le_mono)
  moreover have "unat e div 2 ^ n \<le> (unat s + 2 ^ n) div 2 ^ n" using assms(3) by (simp add: div_le_mono)
  moreover have "(unat s + 2 ^ n) div 2 ^ n = unat s div 2 ^ n + 1" by (rule div_add_self2) simp
  ultimately have "unat a div 2 ^ n = unat s div 2 ^ n \<or> unat a div 2 ^ n = unat e div 2 ^ n" by linarith
  then have "unat (drop_bit n a) = unat (drop_bit n s) \<or> unat (drop_bit n a) = unat (drop_bit n e)"
    unfolding unat_drop_bit_eq unfolding drop_bit_eq_div .
  then show ?thesis by (simp add: word_unat_eq_iff)
qed


section \<open>Properties\<close>

text \<open>
  C20: Excluding ranges from a range: for a range and exclusions without interleaving
  whose bounds are in order, \<open>exclude\<close> returns; its result are non-empty ranges in increasing
  order that do not overlap, and an address is in one of them exactly if it is in the range and
  in none of the exclusions, in whatever order and however overlapping these are given.
\<close>

theorem exclude_exact:
  assumes "plain r" and "\<forall>e \<in> set es. plain e \<and> valid e"
  shows "\<exists>rs. exclude r es = Some rs \<and> segments rs \<and>
    (\<forall>a. (\<exists>x \<in> set rs. contains x a = Some True) \<longleftrightarrow>
      contains r a = Some True \<and> \<not> (\<exists>e \<in> set es. contains e a = Some True))"
proof -
  obtain rs where rs: "exclude r es = Some rs" "segments rs"
    "\<Union> (addrs ` set rs) = addrs r - \<Union> (addrs ` set es)"
    using exclude_addrs [OF assms] by blast
  have c: "contains x a = Some (a \<in> addrs x)" if "x \<in> insert r (set es \<union> set rs)" for x a
    using that assms rs(2) by (intro contains_plain) (auto simp: segments_def)
  have "(\<exists>x \<in> set rs. contains x a = Some True) \<longleftrightarrow>
      contains r a = Some True \<and> \<not> (\<exists>e \<in> set es. contains e a = Some True)" for a
    using rs(3) c by (auto simp: set_eq_iff)
  then show ?thesis using rs(1,2) by blast
qed

theorem exclude_exact_witness:
  "exclude (mkRange 0 100) [mkRange 40 60, mkRange 10 20, mkRange 50 70] =
     Some [mkRange 0 10, mkRange 20 40, mkRange 70 100] \<and>
   segments [mkRange 0 10, mkRange 20 40, mkRange 70 100]"
proof -
  have "exclude (mkRange 0 100) [mkRange 40 60, mkRange 10 20, mkRange 50 70] =
      Some [mkRange 0 10, mkRange 20 40, mkRange 70 100]"
    by (simp add: exclude_def sortRanges_def rangeLess_def interleaved_def intersects_def)
  then show ?thesis
    using exclude_exact [of "mkRange 0 100" "[mkRange 40 60, mkRange 10 20, mkRange 50 70]"]
    by (simp add: valid_def)
qed

text \<open>
  C28: Excluding ranges from a list of ranges: under the same conditions the result
  covers exactly the addresses of the list that are in none of the exclusions.
\<close>

theorem excludeList_exact:
  assumes "\<forall>r \<in> set base. plain r" and "\<forall>e \<in> set es. plain e \<and> valid e"
  shows "\<exists>rs. excludeList base es = Some rs \<and>
    (\<forall>a. (\<exists>x \<in> set rs. contains x a = Some True) \<longleftrightarrow>
      (\<exists>r \<in> set base. contains r a = Some True) \<and> \<not> (\<exists>e \<in> set es. contains e a = Some True))"
proof -
  obtain rs where rs: "excludeList base es = Some rs" "\<forall>x \<in> set rs. plain x"
    "\<Union> (addrs ` set rs) = \<Union> (addrs ` set base) - \<Union> (addrs ` set es)"
    using excludeEach_addrs [of base "sortRanges es" "[]"] assms by (auto simp: excludeList_def)
  have c: "contains x a = Some (a \<in> addrs x)" if "x \<in> set base \<union> set es \<union> set rs" for x a
    using that assms rs(2) by (intro contains_plain) auto
  have "(\<exists>x \<in> set rs. contains x a = Some True) \<longleftrightarrow>
      (\<exists>r \<in> set base. contains r a = Some True) \<and> \<not> (\<exists>e \<in> set es. contains e a = Some True)" for a
    using rs(3) c by (auto simp: set_eq_iff)
  then show ?thesis using rs(1) by blast
qed

theorem excludeList_exact_witness:
  "\<exists>rs. excludeList [mkRange 0 10, mkRange 20 30] [mkRange 5 25] = Some rs \<and>
    (\<exists>x \<in> set rs. contains x 27 = Some True) \<and> \<not> (\<exists>x \<in> set rs. contains x 7 = Some True)"
proof -
  have c: "contains (mkRange 20 30) 27 = Some True" "contains (mkRange 5 25) 27 = Some False"
    "contains (mkRange 5 25) 7 = Some True" by (simp_all add: contains_plain)
  have p: "\<forall>r \<in> set [mkRange 0 10, mkRange 20 30]. plain r" "\<forall>e \<in> set [mkRange 5 25]. plain e \<and> valid e"
    by (simp_all add: valid_def)
  obtain rs where rs: "excludeList [mkRange 0 10, mkRange 20 30] [mkRange 5 25] = Some rs"
    "\<forall>a. (\<exists>x \<in> set rs. contains x a = Some True) \<longleftrightarrow>
      (\<exists>r \<in> set [mkRange 0 10, mkRange 20 30]. contains r a = Some True) \<and>
      \<not> (\<exists>e \<in> set [mkRange 5 25]. contains e a = Some True)"
    using excludeList_exact [OF p] by blast
  show ?thesis using rs(1) rs(2) [THEN spec, of 27] rs(2) [THEN spec, of 7] c by simp
qed

text \<open>
  C27: On non-empty ranges without interleaving, \<open>intersects\<close>, \<open>isSubset\<close> and
  \<open>operator&\<close> return and are the overlap, the inclusion and the intersection of the sets
  of addresses that the ranges contain.
\<close>

theorem plain_algebra:
  assumes "plain r" and "plain s" and "ar_start r < ar_end r" and "ar_start s < ar_end s"
  shows "intersects r s = Some (\<exists>a. contains r a = Some True \<and> contains s a = Some True) \<and>
    isSubset r s = Some (\<forall>a. contains r a = Some True \<longrightarrow> contains s a = Some True) \<and>
    (\<exists>i. rangeAnd r s = Some i \<and>
      (\<forall>a. contains i a = Some (contains r a = Some True \<and> contains s a = Some True)))"
proof -
  have c: "contains r a = Some (a \<in> {ar_start r ..< ar_end r})"
    "contains s a = Some (a \<in> {ar_start s ..< ar_end s})" for a
    using assms by (simp_all add: contains_plain addrs_plain)
  have "(\<exists>a. a \<in> {ar_start r ..< ar_end r} \<and> a \<in> {ar_start s ..< ar_end s}) \<longleftrightarrow>
      ar_start r < ar_end s \<and> ar_start s < ar_end r"
  proof
    assume "ar_start r < ar_end s \<and> ar_start s < ar_end r"
    then show "\<exists>a. a \<in> {ar_start r ..< ar_end r} \<and> a \<in> {ar_start s ..< ar_end s}"
      using assms(3,4) by (intro exI [of _ "max (ar_start r) (ar_start s)"]) (auto simp: max_def)
  qed auto
  moreover have "(\<forall>a. a \<in> {ar_start r ..< ar_end r} \<longrightarrow> a \<in> {ar_start s ..< ar_end s}) \<longleftrightarrow>
      ar_start s \<le> ar_start r \<and> ar_end r \<le> ar_end s"
  proof
    assume "\<forall>a. a \<in> {ar_start r ..< ar_end r} \<longrightarrow> a \<in> {ar_start s ..< ar_end s}"
    then have "{ar_start r ..< ar_end r} \<subseteq> {ar_start s ..< ar_end s}" by blast
    then show "ar_start s \<le> ar_start r \<and> ar_end r \<le> ar_end s"
      using atLeastLessThan_subset_iff assms(3) by (metis not_le)
  qed auto
  moreover have "isSubset r s = Some (ar_start s \<le> ar_start r \<and> ar_end r \<le> ar_end s)"
    using assms by (auto simp: isSubset_def)
  moreover have "\<exists>i. rangeAnd r s = Some i \<and>
      (\<forall>a. contains i a = Some (a \<in> {ar_start r ..< ar_end r} \<and> a \<in> {ar_start s ..< ar_end s}))"
    using assms(1,2) by (auto simp: rangeAnd_def contains_plain Let_def min_def max_def split: if_splits)
  ultimately show ?thesis using assms(1,2) by (simp add: c intersects_plain)
qed

theorem plain_algebra_witness:
  "intersects (mkRange 0 10) (mkRange 5 20) = Some True \<and> isSubset (mkRange 0 10) (mkRange 5 20) = Some False \<and>
   (\<exists>a. contains (mkRange 0 10) a = Some True \<and> contains (mkRange 5 20) a = Some True)"
proof -
  have "intersects (mkRange 0 10) (mkRange 5 20) = Some True" "isSubset (mkRange 0 10) (mkRange 5 20) = Some False"
    by (simp_all add: intersects_def isSubset_def interleaved_def)
  then show ?thesis using plain_algebra [of "mkRange 0 10" "mkRange 5 20"] by simp
qed



text \<open>
  C26: Against an interleaved range, \<open>isSubset\<close> is sound: when it says so, the other
  range contains every address of this one, although the code only tests the first and
  the last.
\<close>

theorem isSubset_interleaved:
  assumes "isSubset r s = Some True" and "interleaved s" and "length (masks s) \<le> 32"
    and "contains r a = Some True"
  shows "contains s a = Some True"
proof -
  have r: "\<not> interleaved r" using assms(1) by (auto simp: isSubset_def split: bind_splits if_splits)
  then have m: "masks r = []" by (simp add: interleaved_def)
  have a: "ar_start r \<le> a" "a < ar_end r" using assms(4) by (auto simp: contains_def split: if_splits)
  let ?l = "ar_end r - 1"
  obtain g where g: "contains s (ar_start r) = Some True" "granularity s = Some g"
    "ar_end r - ar_start r \<le> g" "ar_start r = ?l \<or> contains s ?l = Some True"
    using assms(1,2) r m
    by (auto simp: isSubset_def size_ar_def split: bind_splits if_splits)
  obtain n where n: "n < 64" "g = 2 ^ n" "\<forall>m \<in> set (masks s). \<forall>i. bit m i \<longrightarrow> n \<le> i"
    using granularity_low [OF g(2) assms(2)] by blast
  have c: "ar_start r \<in> addrs s" "?l \<in> addrs s"
    using g(1,4) contains_addrs [OF assms(3)] by auto
  note u = unat_pred [OF a(2)]
  have le: "a \<le> ?l" unfolding word_le_nat_alt u(1) by (rule u(2))
  have "unat (ar_end r - ar_start r) = unat (ar_end r) - unat (ar_start r)"
    using a by (intro unat_sub) simp
  then have "unat (ar_end r) - unat (ar_start r) \<le> 2 ^ n"
    using g(3) n(1,2) by (simp add: word_le_nat_alt unat_pow2)
  then have "unat ?l < unat (ar_start r) + 2 ^ n"
    unfolding u(1) using u(3) by linarith
  from granule_cover [OF a(1) le this]
  have "selects (masks s) (intlvMatch s) a"
    using c selects_granule [OF n(3)] unfolding addrs_def by blast
  moreover have "ar_start s \<le> a" "a < ar_end s" using c a(1) le by (auto simp: addrs_def)
  ultimately show ?thesis using contains_addrs [OF assms(3)] by (simp add: addrs_def)
qed

theorem isSubset_interleaved_witness:
  "contains \<lparr>ar_start = 0, ar_end = 4096, masks = [64], intlvMatch = 1\<rparr> 100 = Some True"
proof -
  have s: "isSubset (mkRange 64 128) \<lparr>ar_start = 0, ar_end = 4096, masks = [64], intlvMatch = 1\<rparr> = Some True"
    by code_simp
  show ?thesis
    by (rule isSubset_interleaved [OF s]) (simp_all add: interleaved_def contains_plain addrs_plain)
qed

text \<open>
  C24: \<open>intersects\<close> never misses an overlap, also with interleaved ranges, unless its
  argument is an interleaved range that contains a single address.
\<close>

theorem intersects_sound:
  assumes "intersects r s = Some False" and "length (masks r) \<le> 32" and "length (masks s) \<le> 32"
    and "interleaved s \<Longrightarrow> size_ar s \<noteq> Some 1"
  shows "\<not> (\<exists>a. contains r a = Some True \<and> contains s a = Some True)"
proof -
  have "a \<notin> addrs s" if a: "a \<in> addrs r" for a
  proof
    assume b: "a \<in> addrs s"
    have meet: "\<not> (ar_start r \<ge> ar_end s \<or> ar_end r \<le> ar_start s)"
      using a b by (auto simp: addrs_def)
    obtain n where n: "size_ar s = Some n"
      "(if n = 1 then contains r (ar_start s) else if mergesWith r s then Some (intlvMatch r = intlvMatch s) else None) = Some False"
      using assms(1) meet by (auto simp: intersects_def split: if_splits elim!: bind_eq_SomeD)
    show False
    proof (cases "n = 1")
      case True
      then have "\<not> interleaved s" using n(1) assms(4) by blast
      then have "ar_end s - ar_start s = 1" using n(1) True by (simp add: size_ar_def interleaved_def)
      then have "ar_end s = ar_start s + 1" by (simp add: algebra_simps)
      then have lt: "a < ar_start s + 1" "ar_start s \<le> a" using b by (simp_all add: addrs_def)
      have "\<not> ar_start s < a" using inc_le [of "ar_start s" a] lt(1) leD by blast
      then have "a = ar_start s" using lt(2) by simp
      then show False using n(2) True a contains_addrs [OF assms(2)] by simp
    next
      case False
      then have "mergesWith r s" "intlvMatch r \<noteq> intlvMatch s" using n(2) by (auto split: if_splits)
      then show False using a b selects_unique by (auto simp: addrs_def mergesWith_def)
    qed
  qed
  then show ?thesis using contains_addrs [OF assms(2)] contains_addrs [OF assms(3)] by auto
qed

theorem intersects_sound_witness:
  "\<not> (\<exists>a. contains \<lparr>ar_start = 0, ar_end = 4096, masks = [64], intlvMatch = 0\<rparr> a = Some True \<and>
         contains \<lparr>ar_start = 0, ar_end = 4096, masks = [64], intlvMatch = 1\<rparr> a = Some True)"
  by (rule intersects_sound) (simp_all add: intersects_def interleaved_def size_ar_def mergesWith_def)

text \<open>
  C22: Merging the stripes of an interleaved range: when the merging constructor
  accepts at least two ranges with at most eight masks, the ranges partition the addresses of
  the merged range: every address of it is in exactly one of them.
\<close>

theorem merge_partition:
  assumes "mergeRanges rs = Some r" and "1 < length rs" and "length (masks (hd rs)) \<le> 8"
  shows "(\<forall>a. contains r a = Some (\<exists>x \<in> set rs. contains x a = Some True)) \<and>
    (\<forall>a j k. j < length rs \<longrightarrow> k < length rs \<longrightarrow> contains (rs ! j) a = Some True \<longrightarrow>
      contains (rs ! k) a = Some True \<longrightarrow> j = k)"
proof -
  let ?h = "hd rs" and ?n = "length (masks (hd rs))"
  have hd: "(case rs of [] \<Rightarrow> defaultRange | r # _ \<Rightarrow> r) = ?h" using assms(2) by (cases rs) auto
  have m: "?n < 64 \<and> length rs = unat (2 ^ ?n :: u64)" "mergeLoop ?h 0 rs = Some ()"
    "r = ?h\<lparr>masks := [], intlvMatch := 0\<rparr>"
    using assms(1,2) unfolding mergeRanges_def hd by (auto simp: Let_def Option.bind_eq_Some_conv)
  then have len: "length rs = 2 ^ ?n" by (simp add: unat_pow2)
  have le: "(2 :: nat) ^ ?n \<le> 256" using power_increasing [OF assms(3), of "2 :: nat"] by simp
  have nth: "ar_start (rs ! k) = ar_start ?h" "ar_end (rs ! k) = ar_end ?h" "masks (rs ! k) = masks ?h"
    "intlvMatch (rs ! k) = of_nat k" if "k < length rs" for k
    using mergeLoop_nth [OF m(2) that] by (auto simp: mergesWith_def)
  have c: "contains (rs ! k) a = Some (a \<in> addrs (rs ! k))" if "k < length rs" for k a
    using assms(3) nth(3) [OF that] by (intro contains_addrs) simp
  have stripe: "\<exists>k < length rs. a \<in> addrs (rs ! k)" if "ar_start ?h \<le> a" "a < ar_end ?h" for a
  proof -
    obtain w where w: "selects (masks ?h) w a" "unat w < 2 ^ ?n" using selects_ex [OF assms(3)] by blast
    then have "a \<in> addrs (rs ! unat w)" using that len nth [of "unat w"] by (simp add: addrs_def)
    then show ?thesis using w(2) len by auto
  qed
  have "contains r a = Some (\<exists>k < length rs. contains (rs ! k) a = Some True)" for a
  proof -
    have "contains r a = Some (ar_start ?h \<le> a \<and> a < ar_end ?h)"
      using contains_addrs [of r a] m(3) by (simp add: addrs_def)
    moreover have "(\<exists>k < length rs. contains (rs ! k) a = Some True) \<longleftrightarrow> ar_start ?h \<le> a \<and> a < ar_end ?h"
    proof
      assume "\<exists>k < length rs. contains (rs ! k) a = Some True"
      then obtain k where "k < length rs" "a \<in> addrs (rs ! k)" using c by auto
      then show "ar_start ?h \<le> a \<and> a < ar_end ?h" using nth(1,2) by (simp add: addrs_def)
    next
      assume "ar_start ?h \<le> a \<and> a < ar_end ?h"
      then show "\<exists>k < length rs. contains (rs ! k) a = Some True" using stripe [of a] c by auto
    qed
    ultimately show ?thesis by simp
  qed
  then have "contains r a = Some (\<exists>x \<in> set rs. contains x a = Some True)" for a
    by (simp add: Bex_def in_set_conv_nth) metis
  moreover have "j = k" if "j < length rs" "k < length rs" "contains (rs ! j) a = Some True"
    "contains (rs ! k) a = Some True" for a j k
  proof -
    have "selects (masks ?h) (of_nat j) a" "selects (masks ?h) (of_nat k) a"
      using that c nth by (auto simp: addrs_def)
    then have "unat (of_nat j :: u8) = unat (of_nat k :: u8)" using selects_unique by metis
    then show ?thesis using that(1,2) len le by (simp add: unat_of_nat)
  qed
  ultimately show ?thesis by blast
qed

theorem merge_partition_witness:
  "\<forall>a. contains (mkRange 0 4096) a =
     Some (contains \<lparr>ar_start = 0, ar_end = 4096, masks = [64], intlvMatch = 0\<rparr> a = Some True \<or>
           contains \<lparr>ar_start = 0, ar_end = 4096, masks = [64], intlvMatch = 1\<rparr> a = Some True)"
proof -
  let ?r = "\<lambda>m. \<lparr>ar_start = 0, ar_end = 4096, masks = [64], intlvMatch = m\<rparr>"
  have "mergeRanges [?r 0, ?r 1] = Some (mkRange 0 4096)"
    by (simp add: mergeRanges_def mkRange_def mergesWith_def ull_shift_def)
  from merge_partition [OF this] show ?thesis by simp
qed

text \<open>
  C23: The bit-based constructor interleaves as its parameters say: whenever it
  accepts up to 32 interleaving bits, an address is in the range exactly if it is between the
  bounds and bit \<open>i\<close> of the match value is the interleaving bit \<open>i\<close> of the address,
  XORed with its XOR bit \<open>i\<close> when there is one. The lowest interleaving bit is
  \<open>high + 1 - n\<close>, where the comment on the constructor says \<open>high - n\<close>, and a high bit 0
  does not disable the interleaving.
\<close>

theorem bitRange_selects:
  assumes "bitRange st en hi xr n m = Some r" and "0 < n" and "n \<le> 32"
  shows "unat n \<le> unat hi + 1 \<and> (xr \<noteq> 0 \<longrightarrow> unat n \<le> unat xr + 1) \<and>
    (\<forall>a. contains r a = Some (st \<le> a \<and> a < en \<and>
      (\<forall>i < unat n. bit m i = (bit a (unat hi + 1 - unat n + i) \<noteq>
        (xr \<noteq> 0 \<and> bit a (unat xr + 1 - unat n + i))))))"
proof -
  let ?n = "unat n"
  have n: "0 < ?n" "?n \<le> 32" using assms(2,3) by (auto simp: word_less_nat_alt word_le_nat_alt)
  obtain ms where ms: "intlvMasks hi xr ?n 0 (replicate ?n 0) = Some ms"
    "r = \<lparr>ar_start = st, ar_end = en, masks = ms, intlvMatch = m\<rparr>"
    "(ucast m :: u64) < 2 ^ ?n" "xr \<noteq> 0 \<longrightarrow> hi \<noteq> xr"
    using assms(1,2) unfolding bitRange_def
    by (auto simp: Option.bind_eq_Some_conv split: if_splits)
  have nth: "length ms = ?n" "\<And>j. j < ?n \<Longrightarrow> intlvMask hi xr j = Some (ms ! (?n - 1 - j))"
    using intlvMasks_nth [OF ms(1)] by auto
  have par: "j \<le> unat hi \<and> (xr \<noteq> 0 \<longrightarrow> j \<le> unat xr) \<and>
      parity (a AND ms ! (?n - 1 - j)) = (bit a (unat hi - j) \<noteq> (xr \<noteq> 0 \<and> bit a (unat xr - j)))"
    if "j < ?n" for j a
    using intlvMask_parity [OF nth(2) [OF that]] that n(2) ms(4) by auto
  have bd: "?n \<le> unat hi + 1" "xr \<noteq> 0 \<longrightarrow> ?n \<le> unat xr + 1"
    using par [of "?n - 1" 0] n(1) by linarith+
  have "contains r a = Some (st \<le> a \<and> a < en \<and> (\<forall>i < ?n. bit m i =
      (bit a (unat hi + 1 - ?n + i) \<noteq> (xr \<noteq> 0 \<and> bit a (unat xr + 1 - ?n + i)))))" for a
  proof -
    have "unat m < 256" using unsigned_less [of m] by simp
    then have "unat (ucast m :: u64) = unat m" by (simp add: unsigned_ucast_eq take_bit_nat_eq_self_iff)
    then have "unat m < 2 ^ ?n" using ms(3) n(2) by (simp only: word_less_nat_alt) (simp add: unat_pow2)
    then have "take_bit ?n m = m"
      using unsigned_take_bit_eq [of ?n m] unsigned_word_eqI by (metis take_bit_nat_eq_self)
    moreover have "parity (a AND ms ! i) =
        (bit a (unat hi + 1 - ?n + i) \<noteq> (xr \<noteq> 0 \<and> bit a (unat xr + 1 - ?n + i)))" if "i < ?n" for i
    proof -
      have "?n - 1 - (?n - 1 - i) = i" "?n - 1 - i < ?n" using that by auto
      moreover have "unat hi - (?n - 1 - i) = unat hi + 1 - ?n + i"
        "xr \<noteq> 0 \<longrightarrow> unat xr - (?n - 1 - i) = unat xr + 1 - ?n + i"
        using bd that by auto
      ultimately show ?thesis using par [of "?n - 1 - i" a] by (cases "xr = 0") simp_all
    qed
    ultimately have "selects ms m a \<longleftrightarrow> (\<forall>i < ?n. bit m i =
        (bit a (unat hi + 1 - ?n + i) \<noteq> (xr \<noteq> 0 \<and> bit a (unat xr + 1 - ?n + i))))"
      unfolding selects_def nth(1) by auto
    then show ?thesis using contains_addrs [of r a] ms(2) nth(1) n(2) by (simp add: addrs_def)
  qed
  then show ?thesis using bd by blast
qed

theorem bitRange_selects_witness:
  "\<exists>r. bitRange 0 4096 7 0 1 1 = Some r \<and> contains r 200 = Some True \<and> contains r 100 = Some False"
proof -
  have e: "bitRange 0 4096 7 0 1 1 = Some \<lparr>ar_start = 0, ar_end = 4096, masks = [128], intlvMatch = 1\<rparr>"
    by (simp add: bitRange_def ull_shift_def intlvMasks.simps intlvMask_def)
  have "bit (200 :: u64) 7" "\<not> bit (100 :: u64) 7" by simp_all
  then show ?thesis using bitRange_selects [OF e] e by simp
qed

end
