(* ===== verification/Interleave.thy ===== *)
theory Interleave
  imports AddrRange
begin

text \<open>
  Removing and adding interleaving bits: \<open>removeIntlvBits\<close> and \<open>addIntlvBits\<close> of
  \<open>base/addr_range.hh\<close> are inverse on the addresses of a range. The loops of the code
  delete and insert one bit position after the other; the theory describes them by the two
  bit operations \<open>del\<close> and \<open>ins\<close>.
\<close>

unbundle bit_operations_syntax

section \<open>Deleting and inserting a bit\<close>

definition del :: "nat \<Rightarrow> u64 \<Rightarrow> u64" where
  "del p a = (a AND mask p) OR (drop_bit 1 a AND NOT (mask p))"

definition ins :: "nat \<Rightarrow> u64 \<Rightarrow> u64" where
  "ins p a = (a AND mask p) OR (push_bit 1 a AND NOT (mask p))"

lemma bit_del: "bit (del p a) k = (if k < p then bit a k else bit a (Suc k))"
  by (auto simp: del_def bit_simps dest: bit_imp_le_length)

lemma bit_push1: "bit (push_bit 1 (a :: u64)) k \<longleftrightarrow> k < 64 \<and> 0 < k \<and> bit a (k - 1)"
  unfolding bit_push_bit_iff by (auto simp: Suc_le_eq)

lemma bit_ins: "bit (ins p a) k = (k < 64 \<and> (if k < p then bit a k else 0 < k \<and> bit a (k - 1)))"
  unfolding ins_def bit_or_iff bit_and_iff bit_push1
  by (auto simp: bit_simps dest: bit_imp_le_length)

lemma u64_eqI: "(\<And>k. bit a k = bit b k) \<Longrightarrow> a = (b :: u64)"
  by (rule bit_word_eqI) simp

lemma del_commute: "p < q \<Longrightarrow> del (q - 1) (del p a) = del p (del q a)"
  by (rule u64_eqI) (auto simp: bit_del)

lemma del_insertBits:
  assumes "i \<le> b" and "0 < b" and "b < 64"
  shows "insertBits (drop_bit 1 a) (of_nat b - of_nat i - 1) 0 a = Some (del (b - i) a)"
proof (cases "i = b")
  case True
  have "del 0 a = drop_bit 1 a" by (rule u64_eqI) (simp add: bit_del bit_drop_bit_eq)
  then show ?thesis using True insertBits_wrapped [of "drop_bit 1 a" a] by simp
next
  case False
  let ?hi = "of_nat b - of_nat i - 1 :: u32"
  have "?hi = of_nat (b - i - 1)" using False assms by (simp add: of_nat_diff)
  then have hi: "unat ?hi = b - i - 1" using assms by (simp add: unat_of_nat)
  then have "?hi < 64" using assms(3) by (simp add: word_less_nat_alt)
  then obtain r where r: "insertBits (drop_bit 1 a) ?hi 0 a = Some r"
    "\<forall>k. bit r k = (if unat (0 :: u32) \<le> k \<and> k \<le> unat ?hi then bit a (k - unat (0 :: u32)) else bit (drop_bit 1 a) k)"
    using bit_insertBits [of 0 ?hi "drop_bit 1 a" a] by auto
  have "r = del (b - i) a"
    by (rule u64_eqI) (use r(2) hi False assms(1) in \<open>auto simp: bit_del bit_drop_bit_eq\<close>)
  then show ?thesis using r(1) by simp
qed

lemma unat_small32: "n < 64 \<Longrightarrow> unat (of_nat n :: u32) = n"
  by (simp add: unat_of_nat)

lemma ins_insertBits:
  assumes "0 < b" and "b < 64"
  shows "insertBits (push_bit 1 a) (of_nat b - 1) 0 a = Some (ins b a)"
proof -
  let ?hi = "of_nat b - 1 :: u32"
  have e: "?hi = of_nat (b - 1)" using assms by (simp add: of_nat_diff)
  have hi: "unat ?hi = b - 1" unfolding e by (rule unat_small32) (use assms in simp)
  then have "?hi < 64" using assms(2) by (simp add: word_less_nat_alt)
  then obtain r where r: "insertBits (push_bit 1 a) ?hi 0 a = Some r"
    "\<forall>k. bit r k = (if unat (0 :: u32) \<le> k \<and> k \<le> unat ?hi then bit a (k - unat (0 :: u32)) else bit (push_bit 1 a) k)"
    using bit_insertBits [of 0 ?hi "push_bit 1 a" a] by auto
  have "r = ins b a"
  proof (rule u64_eqI)
    fix k
    have "bit r k = (if k \<le> b - 1 then bit a k else k < 64 \<and> 0 < k \<and> bit a (k - 1))"
      using r(2) [unfolded bit_push1 hi, THEN spec, of k] by simp
    moreover have "k \<le> b - 1 \<longleftrightarrow> k < b" using assms(1) by auto
    moreover have "bit a k \<Longrightarrow> k < 64" by (auto dest: bit_imp_le_length)
    ultimately show "bit r k = bit (ins b a) k" unfolding bit_ins by auto
  qed
  then show ?thesis using r(1) by simp
qed

section \<open>The loops\<close>

fun delAll :: "nat list \<Rightarrow> u64 \<Rightarrow> u64" where
  "delAll [] a = a"
| "delAll (b # bs) a = del b (delAll bs a)"

lemma delAll_shift:
  "\<forall>q \<in> set qs. p < q \<Longrightarrow> delAll (map (\<lambda>q. q - 1) qs) (del p a) = del p (delAll qs a)"
  by (induction qs) (auto simp: del_commute [unfolded One_nat_def])

lemma removeLoop_delAll:
  assumes "sorted_wrt (<) bs" and "\<forall>b \<in> set bs. i \<le> b \<and> b < 64"
  shows "removeLoop (of_nat i) bs a = Some (delAll (map (\<lambda>b. b - i) bs) a)"
  using assms
proof (induction bs arbitrary: i a)
  case (Cons b bs)
  have step: "(if b > 0 then insertBits (drop_bit 1 a) (of_nat b - of_nat i - 1) 0 a else Some (drop_bit 1 a)) =
      Some (del (b - i) a)"
  proof (cases "b > 0")
    case True
    then show ?thesis using del_insertBits [of i b a] Cons.prems(2) by simp
  next
    case False
    moreover have "del 0 a = drop_bit 1 a" by (rule u64_eqI) (simp add: bit_del bit_drop_bit_eq)
    ultimately show ?thesis by simp
  qed
  have later: "\<forall>x \<in> set bs. Suc i \<le> x \<and> x < 64" "\<forall>x \<in> set bs. b < x" using Cons.prems by (auto simp: Suc_le_eq order.strict_trans1)
  have "map (\<lambda>x. x - Suc i) bs = map (\<lambda>q. q - 1) (map (\<lambda>x. x - i) bs)" by simp
  moreover have "\<forall>q \<in> set (map (\<lambda>x. x - i) bs). b - i < q" using later Cons.prems(2) by (auto intro: diff_less_mono)
  ultimately have "delAll (map (\<lambda>x. x - Suc i) bs) (del (b - i) a) = del (b - i) (delAll (map (\<lambda>x. x - i) bs) a)"
    using delAll_shift by metis
  moreover have "removeLoop (of_nat (Suc i)) bs (del (b - i) a) = Some (delAll (map (\<lambda>x. x - Suc i) bs) (del (b - i) a))"
    using Cons.IH [of "Suc i"] Cons.prems(1) later(1) by simp
  ultimately show ?case using step by (simp add: add.commute)
qed simp

text \<open>Agreement of two addresses outside a set of bits.\<close>

definition agree :: "nat set \<Rightarrow> u64 \<Rightarrow> u64 \<Rightarrow> bool" where
  "agree S a b \<longleftrightarrow> (\<forall>k. k \<notin> S \<longrightarrow> bit a k = bit b k)"

lemma agree_ins:
  assumes "agree S x (del p a)" and "\<forall>k \<in> S. k < p"
  shows "agree (insert p S) (ins p x) a"
  unfolding agree_def
proof (intro allI impI)
  fix k
  assume k: "k \<notin> insert p S"
  consider "k < p" | "p < k" using k by fastforce
  then show "bit (ins p x) k = bit a k"
  proof cases
    case 1
    then show ?thesis using k assms(1) by (auto simp: agree_def bit_ins bit_del dest: bit_imp_le_length)
  next
    case 2
    then have "k - 1 \<notin> S" using assms(2) by auto
    moreover have "\<not> k - 1 < p" "Suc (k - 1) = k" using 2 by auto
    ultimately have "bit x (k - 1) = bit a k" using assms(1) by (simp add: agree_def bit_del)
    then show ?thesis using 2 by (auto simp: bit_ins dest: bit_imp_le_length)
  qed
qed

lemma addLoop_agree:
  assumes "sorted_wrt (<) bs" and "\<forall>b \<in> set bs. b < 64" and "agree S x (delAll bs a)" and "\<forall>k \<in> S. \<forall>b \<in> set bs. k < b"
  shows "\<exists>y. addLoop bs x = Some y \<and> agree (S \<union> set bs) y a"
  using assms
proof (induction bs arbitrary: S x)
  case (Cons b bs)
  have step: "(if b > 0 then insertBits (push_bit 1 x) (of_nat b - 1) 0 x else Some (push_bit 1 x)) = Some (ins b x)"
  proof (cases "b > 0")
    case False
    moreover have "ins 0 x = push_bit 1 x"
      by (rule u64_eqI) (unfold bit_ins bit_push1, auto)
    ultimately show ?thesis by simp
  qed (use ins_insertBits [of b x] Cons.prems(2) in simp)
  have "agree (insert b S) (ins b x) (delAll bs a)" using agree_ins Cons.prems(3,4) by simp
  then obtain y where "addLoop bs (ins b x) = Some y" "agree (insert b S \<union> set bs) y a"
    using Cons.IH [of "insert b S" "ins b x"] Cons.prems(1,2,4) by auto
  then show ?case using step by simp
qed simp

section \<open>Setting the interleaving bits\<close>

lemma ctz64_lowest:
  assumes "msk \<noteq> 0"
  shows "bit msk (ctz64 msk) \<and> ctz64 msk < 64"
proof -
  obtain n where "bit msk n" "builtin_ctz msk = n" "n < 64" using lowest_bit [OF assms] by auto
  then show ?thesis using assms by (simp add: ctz64_def)
qed

lemma parity_split:
  assumes "bit msk p"
  shows "parity (a AND msk) = (bit a p \<noteq> parity (a AND msk AND NOT (2 ^ p)))"
proof -
  let ?A = "{i. bit (a AND msk AND NOT (2 ^ p)) i}"
  have fin: "finite ?A" by (rule finite_subset [of _ "{..<64}"]) (auto dest: bit_imp_le_length)
  have "{i. bit (a AND msk) i} = (if bit a p then insert p ?A else ?A)" "p \<notin> ?A"
    using assms by (auto simp: bit_simps dest: bit_imp_le_length)
  then show ?thesis using fin by (simp add: parity_def popCount_card)
qed

lemma lsb_mask:
  assumes "l < 31"
  shows "scast (NOT (push_bit l 1 :: u32)) = (NOT (2 ^ l) :: u64)"
  by (rule bit_word_eqI) (use assms in \<open>auto simp: bit_simps min_def\<close>)

lemma insertBit_bit:
  assumes "l < 64"
  shows "\<exists>r. insertBit a (of_nat l) v = Some r \<and> (\<forall>k. bit r k = (if k = l then bit v 0 else bit a k))"
proof -
  have u: "unat (of_nat l :: u32) = l" using assms by (simp add: unat_of_nat)
  then have "(of_nat l :: u32) < 64" using assms by (simp add: word_less_nat_alt)
  then obtain r where "insertBits a (of_nat l) (of_nat l) v = Some r"
    "\<forall>k. bit r k = (if l \<le> k \<and> k \<le> l then bit v (k - l) else bit a k)"
    using bit_insertBits [of "of_nat l" "of_nat l" a v] u by auto
  then show ?thesis by (auto simp: insertBit_def)
qed

lemma matchBit:
  assumes "i < 32"
  shows "bits_at (ucast (m :: u8)) (of_nat i) = Some (of_bool (bit m i))"
proof -
  have u: "unat (of_nat i :: u32) = i" using assms by (simp add: unat_of_nat)
  then have "(of_nat i :: u32) < 64" using assms by (simp add: word_less_nat_alt)
  then have "bits_at (ucast m) (of_nat i) = Some (take_bit 1 (drop_bit i (ucast m)))"
    using bits_fl_eq [of "of_nat i" "of_nat i" "ucast m"] u by (simp add: bits_at_def)
  moreover have "take_bit 1 (drop_bit i (ucast m :: u64)) = of_bool (bit m i)"
    by (rule u64_eqI, unfold bit_take_bit_iff bit_drop_bit_eq bit_of_bool_iff comp_def bit_ucast_iff)
      (auto dest: bit_imp_le_length)
  ultimately show ?thesis by simp
qed

lemma bit0_of_nat: "bit (of_nat n :: u64) 0 \<longleftrightarrow> odd n"
proof -
  have "(of_nat n :: u64) = word_of_int (int n)" by simp
  then show ?thesis by (simp only: bit_word_of_int_iff) (simp add: bit_0)
qed

text \<open>The masks: not empty, with different lowest bits below 31, and no mask covers the lowest
  bit of a later one.\<close>

fun masks_ok :: "Addr list \<Rightarrow> bool" where
  "masks_ok [] \<longleftrightarrow> True"
| "masks_ok (msk # ms) \<longleftrightarrow> msk \<noteq> 0 \<and> ctz64 msk < 31 \<and> (\<forall>x \<in> set ms. \<not> bit msk (ctz64 x) \<and> ctz64 x \<noteq> ctz64 msk) \<and> masks_ok ms"

lemma selectLoop_restores:
  assumes "masks_ok ms" and "agree (ctz64 ` set ms) x a" and "i + length ms \<le> 32"
    and "\<forall>j < length ms. parity (a AND ms ! j) = bit m (i + j)"
  shows "selectLoop m i ms x = Some a"
  using assms
proof (induction ms arbitrary: i x)
  case Nil
  then have "x = a" by (intro u64_eqI) (simp add: agree_def)
  then show ?case by simp
next
  case (Cons msk ms)
  let ?l = "ctz64 msk"
  have l: "msk \<noteq> 0" "?l < 31" "bit msk ?l" using Cons.prems(1) ctz64_lowest by auto
  let ?masked = "x AND msk AND scast (NOT (push_bit ?l 1 :: u32))"
  have same: "?masked = a AND msk AND NOT (2 ^ ?l)"
  proof (rule u64_eqI)
    fix k
    have "bit x k = bit a k" if "bit msk k" "k \<noteq> ?l"
      using that Cons.prems(1,2) by (auto simp: agree_def)
    then show "bit ?masked k = bit (a AND msk AND NOT (2 ^ ?l)) k"
      unfolding lsb_mask [OF l(2)] by (auto simp: bit_simps)
  qed
  have "parity (a AND msk) = bit m i" using Cons.prems(4) by force
  then have target: "bit a ?l = (bit m i \<noteq> parity ?masked)"
    using parity_split [OF l(3), of a] same by auto
  let ?v = "of_bool (bit m i) XOR of_nat (popCount ?masked) :: u64"
  have v: "bit ?v 0 = bit a ?l" unfolding bit_xor_iff bit_of_bool_iff bit0_of_nat target parity_def by simp
  obtain r where r: "insertBit x (of_nat ?l) ?v = Some r" "\<forall>k. bit r k = (if k = ?l then bit ?v 0 else bit x k)"
    using insertBit_bit [of ?l x ?v] l(2) by auto
  have "agree (ctz64 ` set ms) r a" using Cons.prems(2) r(2) v by (auto simp: agree_def)
  moreover have "\<forall>j < length ms. parity (a AND ms ! j) = bit m (Suc i + j)"
    using Cons.prems(4) by force
  ultimately have "selectLoop m (Suc i) ms r = Some a" using Cons.IH Cons.prems(1,3) by simp
  then show ?case using r(1) l(2) Cons.prems(3) matchBit [of i m] by simp
qed

section \<open>Properties\<close>

lemma masks_ok_lsbs:
  assumes "masks_ok ms"
  shows "distinct (map ctz64 ms) \<and> (\<forall>b \<in> set (map ctz64 ms). b < 31)"
  using assms by (induction ms) (auto simp: image_iff)

text \<open>
  C21: Removing the interleaving bits of an address of a range and adding them again
  gives the address back, for every address that the range contains and every set of masks with
  different lowest bits below 31 of which none covers the lowest bit of a later mask.
\<close>

theorem interleave_roundtrip:
  assumes "contains r a = Some True" and "masks_ok (masks r)"
  shows "\<exists>x. removeIntlvBits r a = Some x \<and> addIntlvBits r x = Some a"
proof (cases "interleaved r")
  case False
  then show ?thesis by (simp add: removeIntlvBits_def addIntlvBits_def)
next
  case True
  let ?ms = "masks r" and ?bs = "sort (map ctz64 (masks r))"
  have lsb: "distinct (map ctz64 ?ms)" "\<forall>b \<in> set (map ctz64 ?ms). b < 31"
    using masks_ok_lsbs [OF assms(2)] by auto
  have "card (set (map ctz64 ?ms)) \<le> card {..<31 :: nat}" using lsb(2) by (intro card_mono) auto
  then have len: "length ?ms \<le> 32" using distinct_card [OF lsb(1)] by simp
  have "distinct ?bs" using lsb(1) by simp
  then have bs: "sorted_wrt (<) ?bs" by (intro strict_sorted_iff [THEN iffD2]) simp
  have b64: "\<forall>b \<in> set ?bs. 0 \<le> b \<and> b < 64" "\<forall>b \<in> set ?bs. b < 64" using lsb(2) by auto
  have rem: "removeLoop 0 ?bs a = Some (delAll ?bs a)" using removeLoop_delAll [OF bs b64(1)] by simp
  obtain y where y: "addLoop ?bs (delAll ?bs a) = Some y" "agree (ctz64 ` set ?ms) y a"
    using addLoop_agree [OF bs b64(2), of "{}" "delAll ?bs a" a] by (auto simp: agree_def)
  have "a \<in> addrs r" using assms(1) contains_addrs [OF len] by simp
  then have "\<forall>j < length ?ms. parity (a AND ?ms ! j) = bit (intlvMatch r) (0 + j)"
    by (simp add: addrs_def selects_def)
  then have "selectLoop (intlvMatch r) 0 ?ms y = Some a"
    using selectLoop_restores [OF assms(2) y(2), of 0 "intlvMatch r"] len by simp
  then show ?thesis using True rem y(1) by (simp add: removeIntlvBits_def addIntlvBits_def)
qed

theorem interleave_roundtrip_witness:
  "\<exists>r x. maskRange 0 4096 [0x140, 0x80] 3 = Some r \<and> contains r 200 = Some True \<and>
     removeIntlvBits r 200 = Some x \<and> addIntlvBits r x = Some 200"
proof -
  let ?r = "\<lparr>ar_start = 0, ar_end = 4096, masks = [0x140, 0x80], intlvMatch = 3\<rparr>"
  have "maskRange 0 4096 [0x140, 0x80] 3 = Some ?r" by (simp add: maskRange_def ull_shift_def)
  moreover have "contains ?r 200 = Some True" by code_simp
  moreover have "masks_ok (masks ?r)" by code_simp
  ultimately show ?thesis using interleave_roundtrip [of ?r 200] by blast
qed

end
