(* ===== verification/Spec2Isabelle.thy ===== *)
theory Spec2Isabelle
  imports UcieErrors EventService ClockDomain IntMath Interleave
begin

text \<open>
  Verification of the UCIe link model that this repository adds to gem5, together with the
  parts of the simulator that the link stands on. File names below are relative to
  \<open>src/gem5/src\<close>.

  \<^bold>\<open>The program.\<close> The experiments connect two objects of class \<open>UcieLink\<close>
  (\<open>mem/ucie/ucie_link.hh\<close>, \<open>mem/ucie/ucie_link.cc\<close>). The CPU chiplet hands
  transaction-layer packets (TLPs) to the first link. The link stages them, cuts the staged
  bytes into flits of 236 payload bytes, sends a copy of each flit to the second link and
  keeps the flit in a retry buffer until it is acknowledged; credits bound the flits under way.
  The second link checks a flit for injected errors, drops duplicates, takes the TLPs out of
  it, hands them to the memory and answers with an acknowledgement or a negative
  acknowledgement. Both links are clocked objects (\<open>sim/clocked_object.hh\<close>) of a clock
  domain (\<open>sim/clock_domain.cc\<close>, \<open>sim/voltage_domain.cc\<close>), schedule their handlers on
  the event queue (\<open>sim/eventq.hh\<close>, \<open>sim/eventq.cc\<close>) and exchange packets
  (\<open>mem/packet.hh\<close>, \<open>mem/packet.cc\<close>, \<open>mem/request.hh\<close>) through timing ports
  (\<open>mem/protocol/timing.cc\<close>). Flag words, bit fields, integer arithmetic and address ranges
  come from \<open>base/\<close>.

  \<^bold>\<open>Conventions.\<close> Unsigned integers are words of their width. A failed assertion, a
  \<open>panic\<close> or \<open>fatal\<close>, a null or dangling pointer and undefined behaviour are the value
  \<open>None\<close> of an option; a theorem that code returns \<open>Some\<close> therefore excludes all of
  them. Objects that the code shares by pointer (packets, flits, events) live in an explicit
  store from addresses to objects. A call through a port is a function argument of the caller,
  because the peer may call back before it returns. The parameters of type \<open>double\<close> are
  rational numbers.

  \<^bold>\<open>Theories.\<close>
  \<^item> \<open>Prelude\<close>: machine types, checks, and the facts on options, lists and words that the
    other theories share. \<open>Runs\<close>: sequences of actions that may abort; its locales
    \<open>guarded_system\<close> and \<open>refined_system\<close> turn an invariant, or a simulation, of the single
    actions into one of all sequences. They are interpreted on the two links (\<open>clean_sys\<close> in
    \<open>UcieReach\<close>) and on the event queue (\<open>eqs\<close> in \<open>EventService\<close>).
  \<^item> \<open>UcieFlit\<close>: the classes \<open>UcieFlitPacket\<close>, \<open>FlitPacker\<close> and \<open>FlitUnpacker\<close>.
    \<open>assembleFlit\<close> implements the cutting of a byte stream, and packing followed by unpacking
    gives back the TLPs in the least number of flits.
  \<^item> \<open>UcieLink\<close>: every handler of class \<open>UcieLink\<close> and of its two ports, on a state
    of two links, heap, event queue and current tick. \<open>UcieSystem\<close> binds the ports of the two
    links to each other, to a CPU and to a memory, and says in closed form what the handlers
    compute. \<open>UcieClean\<close> proves, handler by handler, the invariant of a channel
    without injected errors; \<open>UcieReach\<close> lifts it to all runs: no run aborts, the memory takes
    the TLPs of the CPU in order and once, an idle system has delivered everything, and
    credits are conserved. The runs are those with at least two credits and no two flits in
    one tick, before tick \<open>2^62\<close>, so that no tick arithmetic wraps around.
    \<open>UcieErrors\<close> leaves the clean channel: exactly what the receiver does with a flit in any
    state, and that it returns when its peer and the TLPs are well formed; how a CRC error locks the
    receiver and makes the sender replay; what acknowledgements do to the retry buffer, the
    credits, the timer and a blocked sender; and two ways to lose TLPs without errors, a second
    flit in one tick and a pool of one credit.
  \<^item> \<open>MemCmd\<close>, \<open>Packet\<close>: the command table and class \<open>Packet\<close> with the part of
    \<open>Request\<close> that it reads: the pairing of requests and responses, and the bytes that
    a functional access copies. \<open>Flags\<close>: class \<open>Flags\<close>.
  \<^item> \<open>Clocked\<close>: the cycle counter and \<open>clockEdge\<close>. \<open>ClockDomain\<close>: source and
    derived clock domains and voltage domains; a switch of the performance level keeps the tree
    of domains consistent.
  \<^item> \<open>EventOrder\<close>: the order of events and the abstract queue, a sorted list.
    \<open>EventQueue\<close>: the linked bins of the code, with the pointer loops as
    \<open>partial_function\<close>s, for which \<open>EventBins\<close> proves that they return.
    \<open>EventService\<close>: the queue refines the sorted list for every sequence of calls;
    the calls of handlers that the service of due events makes, verification and checkpoints.
  \<^item> \<open>Bitfield\<close>, \<open>IntMath\<close>: masks, fields, bit searches, logarithms, rounding and
    wide products, each against its mathematical meaning. \<open>AddrRange\<close>: address ranges
    with interleaving, described by the set of addresses they contain, and subsets also at the top
    of the address space. \<open>Interleave\<close>: removing
    and adding the interleaving bits of an address are inverse.

  \<^bold>\<open>Bounds.\<close> No fuel is used: loops are structural recursions, recursions with a measure, or
  \<open>partial_function\<close>s with a theorem that they return. The bounds in the theorems are those
  that keep machine arithmetic from wrapping around (ticks below \<open>2^62\<close>, TLPs below
  \<open>2^31\<close> bytes, at most 32 interleaving masks, which is the width of the selector).

  \<^bold>\<open>Not modelled.\<close>
  \<^item> The SystemVerilog of the logical PHY and the Python configurations: other languages
    without a counterpart in the simulator's C++.
  \<^item> Rounding of \<open>double\<close>, log and trace output, the statistics framework (the counters of
    the link are modelled as unbounded numbers), printing of packets and ranges.
  \<^item> Locks and the migration of events between the queues of several simulation threads;
    binding of ports, atomic and functional port accesses of the link, which only forward.
  \<^item> The rest of gem5 (processors, caches, crossbars, memory controllers, devices, operating
    system emulation): the experiments instantiate it, but the link only sees it through its
    ports, where the CPU and the memory are arbitrary environments.
\<close>

end
